theory Spec2Isabelle
  imports Complex_Main "HOL-Library.AList" "HOL-Library.Sublist"
begin

section \<open>Values shared by the front end\<close>

text \<open>
  A JavaScript object used as a dictionary (\<open>Record<string, V>\<close>) is the association
  list of its own properties in the order of \<open>Object.entries\<close>; every key occurs
  once. Reading an own property is \<open>map_of\<close>, defining one is \<open>AList.update\<close> (an
  existing key keeps its place, a new key goes last). \<open>Object.entries\<close> lists the
  keys that are array indices before the others; the statements below read
  properties by key and do not depend on the order.
\<close>

type_synonym 'v js_object = "(string \<times> 'v) list"


text \<open>
  A value of type \<open>number\<close> that the code compares or passes on is a real, or
  \<open>None\<close> for the two values that are not numbers in a comparison: \<open>undefined\<close>
  (an array read out of range) and \<open>NaN\<close>. Every comparison with \<open>None\<close> is false
  and arithmetic on \<open>None\<close> gives \<open>None\<close>. Arithmetic on reals is exact where the
  code rounds to double precision; the statements below hold for every outcome of the
  comparisons, and the examples stay away from the thresholds.
\<close>

type_synonym jsnum = "real option"

definition js_lt :: "jsnum \<Rightarrow> jsnum \<Rightarrow> bool" where
  "js_lt a b = (case (a, b) of (Some x, Some y) \<Rightarrow> x < y | _ \<Rightarrow> False)"

definition js_gt :: "jsnum \<Rightarrow> jsnum \<Rightarrow> bool" where
  "js_gt a b = (case (a, b) of (Some x, Some y) \<Rightarrow> x > y | _ \<Rightarrow> False)"

definition js_add :: "jsnum \<Rightarrow> jsnum \<Rightarrow> jsnum" where
  "js_add a b = (case (a, b) of (Some x, Some y) \<Rightarrow> Some (x + y) | _ \<Rightarrow> None)"

definition js_mul :: "jsnum \<Rightarrow> jsnum \<Rightarrow> jsnum" where
  "js_mul a b = (case (a, b) of (Some x, Some y) \<Rightarrow> Some (x * y) | _ \<Rightarrow> None)"

text \<open>Division is used with the non-zero literal divisor 3 only.\<close>

definition js_div :: "jsnum \<Rightarrow> real \<Rightarrow> jsnum" where
  "js_div a d = (case a of Some x \<Rightarrow> Some (x / d) | None \<Rightarrow> None)"

text \<open>\<open>xs[i]\<close>: \<open>undefined\<close> outside the array, also for the index \<open>-1\<close>.\<close>

definition js_index :: "real list \<Rightarrow> int \<Rightarrow> jsnum" where
  "js_index xs i = (if 0 \<le> i \<and> i < int (length xs) then Some (xs ! nat i) else None)"

datatype js_error = Error string | TypeError string | SyntaxError string

section \<open>The configuration and scenario types (frontend/src/api)\<close>





record SimulationResult =
  t :: "real list"
  result_states :: "(real list) js_object"
  result_params :: "real js_object"
  result_initial :: "real list"

section \<open>Selecting a scenario (App.loadScenarioValues)\<close>












section \<open>The insight engine (utils/insightEngine: generateInsights)\<close>

datatype insight_type = warning | success | info

datatype impact = high | medium | low

text \<open>
  A description is a template literal. Its text is kept; a number printed into it with
  \<open>toFixed(0)\<close> is kept as the expression that is printed, not as digits:
  \<open>PctOf x\<close> is \<open>(x * 100).toFixed(0)\<close>, \<open>PctDrop a b\<close> is
  \<open>((1 - a / b) * 100).toFixed(0)\<close> and \<open>PctGain a b\<close> is
  \<open>((a / b - 1) * 100).toFixed(0)\<close>.
\<close>

datatype piece = Text string | PctOf jsnum | PctDrop jsnum jsnum | PctGain jsnum jsnum

record Insight =
  ins_type :: insight_type
  ins_title :: string
  ins_description :: "piece list"
  ins_impact :: impact

text \<open>
  \<open>result.states.X\<close> is \<open>undefined\<close> when the record has no property \<open>X\<close>, and
  indexing \<open>undefined\<close> throws a TypeError.
\<close>

definition stateSeries :: "SimulationResult \<Rightarrow> string \<Rightarrow> js_error + real list" where
  "stateSeries result key =
     (case map_of (result_states result) key of
        None \<Rightarrow> Inl (TypeError ''Cannot read properties of undefined'')
      | Some xs \<Rightarrow> Inr xs)"

definition and_then :: "'e + 'a \<Rightarrow> ('a \<Rightarrow> 'e + 'b) \<Rightarrow> 'e + 'b" where
  "and_then m f = (case m of Inl e \<Rightarrow> Inl e | Inr x \<Rightarrow> f x)"

definition push_if :: "bool \<Rightarrow> 'a \<Rightarrow> 'a list \<Rightarrow> 'a list" where
  "push_if c x xs = (if c then xs @ [x] else xs)"

definition generateInsights :: "SimulationResult option \<Rightarrow> string \<Rightarrow> js_error + Insight list"
  where
  "generateInsights res scenarioName =
   (case res of
      None \<Rightarrow> Inr []
    | Some result \<Rightarrow>
     (let lastIdx = int (length (t result)) - 1;
          midIdx = int (length (t result) div 2)
      in
      and_then (stateSeries result ''X'') (\<lambda>X.
      let incidentEnd = js_index X lastIdx;
          incidentMid = js_index X midIdx;
          insights1 = push_if (js_gt incidentEnd (Some (6 / 10)))
            \<lparr>ins_type = warning, ins_title = ''High Incident Risk'',
             ins_description = [Text ''This scenario results in '', PctOf incidentEnd,
               Text ''% incident accumulation, which could damage trust and trigger regulatory scrutiny.''],
             ins_impact = high\<rparr> []
      in
      and_then (stateSeries result ''L'') (\<lambda>L.
      let trustEnd = js_index L lastIdx;
          trustStart = js_index L 0;
          insights2 = push_if (js_lt trustEnd (js_mul trustStart (Some (7 / 10))))
            \<lparr>ins_type = warning, ins_title = ''Trust Erosion'',
             ins_description = [Text ''Legitimacy drops by '', PctDrop trustEnd trustStart,
               Text ''%, potentially limiting future procurement and political support.''],
             ins_impact = high\<rparr> insights1
      in
      and_then (stateSeries result ''V'') (\<lambda>V.
      and_then (stateSeries result ''T'') (\<lambda>T.
      let vvEnd = js_index V lastIdx;
          targetingEnd = js_index T lastIdx;
          insights3 = push_if (js_gt targetingEnd (Some (6 / 10)) \<and> js_lt vvEnd (Some (4 / 10)))
            \<lparr>ins_type = warning, ins_title = ''V&V Investment Gap'',
             ins_description = [Text ''High targeting capability ('', PctOf targetingEnd,
               Text ''%) without adequate V&V maturity ('', PctOf vvEnd,
               Text ''%) increases incident probability.''],
             ins_impact = high\<rparr> insights2
      in
      and_then (stateSeries result ''S'') (\<lambda>S.
      and_then (stateSeries result ''D'') (\<lambda>D.
      let capabilityEnd =
            js_div (js_add (js_add (js_index T lastIdx) (js_index S lastIdx))
                           (js_index D lastIdx)) 3;
          capabilityStart =
            js_div (js_add (js_add (js_index T 0) (js_index S 0)) (js_index D 0)) 3;
          insights4 = push_if (js_gt capabilityEnd (js_mul capabilityStart (Some (12 / 10)))
                               \<and> js_lt incidentEnd (Some (4 / 10)))
            \<lparr>ins_type = success, ins_title = ''Sustainable Growth'',
             ins_description = [Text ''Capability increases by '',
               PctGain capabilityEnd capabilityStart,
               Text ''% while maintaining low incident risk. This is a balanced approach.''],
             ins_impact = high\<rparr> insights3
      in
      and_then (stateSeries result ''E'') (\<lambda>E.
      let ethicsEnd = js_index E lastIdx;
          insights5 = push_if (js_gt ethicsEnd (Some (7 / 10)) \<and> js_gt trustEnd (Some (7 / 10)))
            \<lparr>ins_type = success, ins_title = ''Strong Compliance Posture'',
             ins_description = [Text ''High ethics compliance ('', PctOf ethicsEnd,
               Text ''%) builds trust ('', PctOf trustEnd,
               Text ''%), enabling sustained procurement.''],
             ins_impact = medium\<rparr> insights4
      in
      and_then (stateSeries result ''R'') (\<lambda>R.
      let resourceEnd = js_index R lastIdx;
          insights6 = push_if (js_lt resourceEnd (Some (4 / 10)))
            \<lparr>ins_type = warning, ins_title = ''Resource Constraints'',
             ins_description = [Text ''Resource capacity drops to '', PctOf resourceEnd,
               Text ''%, limiting ability to invest in capabilities or compliance.''],
             ins_impact = medium\<rparr> insights5
      in Inr (take 3 insights6)))))))))))"

text \<open>Two simulation results: one with no state series at all, one with all eight.\<close>

definition empty_result :: SimulationResult where
  "empty_result = \<lparr>t = [], result_states = [], result_params = [], result_initial = []\<rparr>"

definition risky_result :: SimulationResult where
  "risky_result =
     \<lparr>t = [0, 1],
      result_states =
        [(''T'', [5 / 10, 7 / 10]), (''S'', [5 / 10, 5 / 10]), (''D'', [5 / 10, 5 / 10]),
         (''X'', [1 / 10, 9 / 10]), (''E'', [5 / 10, 5 / 10]), (''V'', [5 / 10, 2 / 10]),
         (''L'', [8 / 10, 3 / 10]), (''R'', [5 / 10, 1 / 10])],
      result_params = [], result_initial = []\<rparr>"

section \<open>Equation dependencies (components/EquationEditor)\<close>

record EquationDependencies =
  stocks :: "string list"
  parameters :: "string list"

section \<open>Editing a state variable (components/NodeEditModal: handleSave)\<close>

text \<open>
  Strings are lists of characters; a character stands for a UTF-16 code unit below 256.
  \<open>String.prototype.trim\<close> removes white space and line terminators from both ends;
  below 256 these are tab, line feed, vertical tab, form feed, carriage return, space
  and the no-break space.
\<close>

definition isWhiteSpace :: "char \<Rightarrow> bool" where
  "isWhiteSpace c = (of_char c \<in> {9, 10, 11, 12, 13, 32, 160 :: nat})"

definition trim :: "string \<Rightarrow> string" where
  "trim s = rev (dropWhile isWhiteSpace (rev (dropWhile isWhiteSpace s)))"

text \<open>The fields of \<open>Partial<EditableNodeData>\<close> that the modal passes to \<open>onSave\<close>.\<close>

record node_updates =
  label :: string
  upd_description :: string
  business_meaning :: string
  upd_initial :: jsnum
  upd_category :: string

text \<open>The component's state, one field for each \<open>useState\<close>.\<close>

record modal_state =
  name :: string
  description :: string
  businessMeaning :: string
  initial :: jsnum
  category :: string
  targetEquation :: string
  derivativeEquation :: string
  targetDeps :: EquationDependencies
  derivativeDeps :: EquationDependencies
  validating :: bool
  errors :: "string list"

text \<open>
  The callbacks \<open>onSave\<close> and \<open>onClose\<close> are properties of the component. The model
  records each call, with its arguments, in the order in which they are made.
\<close>

datatype modal_call =
    OnSave string node_updates "EquationDependencies \<times> EquationDependencies"
  | OnClose

definition handleSave :: "string \<Rightarrow> modal_state \<Rightarrow> modal_state \<times> modal_call list" where
  "handleSave node_id st =
     (let st1 = st\<lparr>validating := True, errors := []\<rparr>;
          newErrors0 = push_if (trim (name st) = []) ''Name is required'' [];
          newErrors = push_if (js_lt (initial st) (Some 0) \<or> js_gt (initial st) (Some 1))
                        ''Initial value must be between 0 and 1'' newErrors0
      in if length newErrors > 0
         then (st1\<lparr>errors := newErrors, validating := False\<rparr>, [])
         else (st1\<lparr>validating := False\<rparr>,
               [OnSave node_id
                  \<lparr>label = name st, upd_description = description st,
                   business_meaning = businessMeaning st, upd_initial = initial st,
                   upd_category = category st\<rparr>
                  (targetDeps st, derivativeDeps st),
                OnClose]))"

definition demo_modal :: "string \<Rightarrow> jsnum \<Rightarrow> modal_state" where
  "demo_modal n i =
     \<lparr>name = n, description = ''Accuracy of targeting'', businessMeaning = [],
      initial = i, category = ''capability'', targetEquation = [], derivativeEquation = [],
      targetDeps = \<lparr>stocks = [], parameters = []\<rparr>,
      derivativeDeps = \<lparr>stocks = [], parameters = []\<rparr>,
      validating = False, errors = []\<rparr>"

section \<open>Draft API client (frontend/src/api/drafts.ts)\<close>

text \<open>
  The client talks to the backend through \<open>fetch\<close>. The backend is not part of the
  client, so \<open>fetch\<close> is a parameter of the model: a call takes a request and the state
  of the world outside the client (the network and the backend's store), and leaves
  that world changed together with an answer. The call either rejects (the promise is
  rejected, for instance when the network is down) or resolves to a response, of which
  the client reads \<open>ok\<close> and \<open>statusText\<close> only. An \<open>async\<close> function that throws is
  a function whose result is \<open>Inl\<close> of the thrown value.
\<close>

datatype http_method = GET | POST | PUT | DELETE

record request =
  url :: string
  http_method :: http_method
  body :: "string option"

record response =
  ok :: bool
  statusText :: string

type_synonym 'w fetch = "request \<Rightarrow> 'w \<Rightarrow> (js_error + response) \<times> 'w"

definition API_BASE :: string where
  "API_BASE = ''http://localhost:8000''"

text \<open>
  A template literal prints a number that is a non-negative integer below \<open>10\<^sup>2\<^sup>1\<close> by
  its decimal digits. An index is a natural number; the numbers of JavaScript contain
  every natural number below \<open>2\<^sup>5\<^sup>3\<close>, and the statements about the printed index are
  made for these.
\<close>

definition digit :: "nat \<Rightarrow> char" where
  "digit d = char_of (48 + d)"

function decimal :: "nat \<Rightarrow> string" where
  "decimal n = (if n < 10 then [digit n] else decimal (n div 10) @ [digit (n mod 10)])"
  by pat_completeness auto
termination
  by (relation "measure (\<lambda>n. n)") auto

declare decimal.simps [simp del]

definition removeChangeRequest :: "string \<Rightarrow> nat \<Rightarrow> request" where
  "removeChangeRequest draftId changeIndex =
     \<lparr>url = API_BASE @ ''/drafts/'' @ draftId @ ''/changes/'' @ decimal changeIndex,
      http_method = DELETE, body = None\<rparr>"

definition removeChangeFromDraft ::
  "'w fetch \<Rightarrow> string \<Rightarrow> nat \<Rightarrow> 'w \<Rightarrow> (js_error + unit) \<times> 'w" where
  "removeChangeFromDraft fetch draftId changeIndex world =
     (case fetch (removeChangeRequest draftId changeIndex) world of
        (Inl rejected, world') \<Rightarrow> (Inl rejected, world')
      | (Inr response, world') \<Rightarrow>
          if \<not> ok response
          then (Inl (Error (''Failed to remove change: '' @ statusText response)), world')
          else (Inr (), world'))"

text \<open>
  Reading a decimal numeral, to say which number a printed index denotes.
\<close>

definition isDigit :: "char \<Rightarrow> bool" where
  "isDigit c = (48 \<le> (of_char c :: nat) \<and> (of_char c :: nat) \<le> 57)"

definition digits_value :: "string \<Rightarrow> nat" where
  "digits_value ds = foldl (\<lambda>acc c. 10 * acc + (of_char c - 48)) 0 ds"

text \<open>
  A backend for the example below. Its world is the store of drafts, each a list of
  change names, and the log of the requests received. It serves the removal of a change
  of \<open>draft_1\<close> at index 1 and answers \<open>Not Found\<close> to everything else.
\<close>

record backend_world =
  stored_drafts :: "(string \<times> string list) list"
  received :: "request list"

definition toy_backend :: "backend_world fetch" where
  "toy_backend req world =
     (let logged = world\<lparr>received := received world @ [req]\<rparr>;
          notFound = \<lparr>ok = False, statusText = ''Not Found''\<rparr>
      in if req = \<lparr>url = ''http://localhost:8000/drafts/draft_1/changes/1'',
                   http_method = DELETE, body = None\<rparr>
         then (case map_of (stored_drafts world) ''draft_1'' of
                 None \<Rightarrow> (Inr notFound, logged)
               | Some cs \<Rightarrow>
                   if 1 < length cs
                   then (Inr \<lparr>ok = True, statusText = ''OK''\<rparr>,
                         logged\<lparr>stored_drafts :=
                                  AList.update ''draft_1'' (take 1 cs @ drop 2 cs)
                                    (stored_drafts world)\<rparr>)
                   else (Inr notFound, logged))
         else (Inr notFound, logged))"

definition toy_world :: backend_world where
  "toy_world = \<lparr>stored_drafts = [(''draft_1'', [''add_state'', ''update_param'', ''add_rel''])],
                received = []\<rparr>"

section \<open>The graph editor's draft (components/GraphEditor: startDraft, addChange)\<close>

datatype json = JNull | JBool bool | JNum real | JStr string | JObj "(string \<times> json) list"

record PatchChange =
  op :: string
  symbol :: "string option"
  change_id :: "string option"
  data :: "(string \<times> json) list"
  reason :: "string option"

record Draft =
  draft_id :: string
  created_at :: string
  based_on_version :: "string option"
  draft_description :: "string option"
  changes :: "PatchChange list"
  metadata :: "(string \<times> json) list"

record DraftState =
  active :: bool
  draft :: "Draft option"
  state_changes :: "PatchChange list"

text \<open>
  The editor calls the draft API client. What the backend answers is a parameter: the
  outcome of \<open>createDraft\<close> and of \<open>addChangeToDraft\<close> for each argument. Every call
  that the editor makes is recorded in \<open>api_calls\<close>, and every \<open>console.error\<close> in
  \<open>console\<close>.
\<close>

record draft_api =
  createDraft :: "string \<Rightarrow> js_error + Draft"
  addChangeToDraft :: "string \<Rightarrow> PatchChange \<Rightarrow> js_error + unit"

datatype api_call = CreateDraft string | AddChangeToDraft string PatchChange

record editor_state =
  draftState :: DraftState
  undoStack :: "PatchChange list"
  redoStack :: "PatchChange list"
  console :: "string list"
  api_calls :: "api_call list"

definition startDraft :: "draft_api \<Rightarrow> editor_state \<Rightarrow> editor_state" where
  "startDraft api st =
     (let st1 = st\<lparr>api_calls := api_calls st @ [CreateDraft ''Live model editing session'']\<rparr>
      in case createDraft api ''Live model editing session'' of
           Inr d \<Rightarrow> st1\<lparr>draftState := \<lparr>active = True, draft = Some d, state_changes = []\<rparr>\<rparr>
         | Inl error \<Rightarrow> st1\<lparr>console := console st1 @ [''Failed to create draft:'']\<rparr>)"

text \<open>
  \<open>addChange\<close> reads \<open>draftState.draft\<close> as the component last rendered it, which is
  the draft of the state in which the edit is made.
\<close>

definition addChange :: "draft_api \<Rightarrow> PatchChange \<Rightarrow> editor_state \<Rightarrow> editor_state" where
  "addChange api change st =
     (case draft (draftState st) of
        None \<Rightarrow> startDraft api st
      | Some d \<Rightarrow>
         (let st1 = st\<lparr>api_calls := api_calls st @ [AddChangeToDraft (draft_id d) change]\<rparr>
          in case addChangeToDraft api (draft_id d) change of
               Inr u \<Rightarrow>
                 st1\<lparr>draftState :=
                       (draftState st1)\<lparr>state_changes :=
                                           state_changes (draftState st1) @ [change]\<rparr>,
                     undoStack := undoStack st1 @ [change],
                     redoStack := []\<rparr>
             | Inl error \<Rightarrow> st1\<lparr>console := console st1 @ [''Failed to add change:'']\<rparr>))"

text \<open>The editor as it is mounted, a backend that accepts everything, and one edit.\<close>

definition initial_editor :: editor_state where
  "initial_editor =
     \<lparr>draftState = \<lparr>active = False, draft = None, state_changes = []\<rparr>,
      undoStack = [], redoStack = [], console = [], api_calls = []\<rparr>"

definition fresh_draft :: Draft where
  "fresh_draft =
     \<lparr>draft_id = ''draft_1'', created_at = ''2026-02-05T14:30:00'', based_on_version = None,
      draft_description = Some ''Live model editing session'', changes = [], metadata = []\<rparr>"

definition accepting_api :: draft_api where
  "accepting_api = \<lparr>createDraft = (\<lambda>d. Inr fresh_draft), addChangeToDraft = (\<lambda>i c. Inr ())\<rparr>"

definition move_node :: PatchChange where
  "move_node =
     \<lparr>op = ''update_state'', symbol = Some ''T'', change_id = None,
      data = [(''ui'', JObj [(''x'', JNum 10), (''y'', JNum 20)])],
      reason = Some ''Node repositioned''\<rparr>"

section \<open>Regular expressions of the equation editor\<close>

text \<open>
  A compiled pattern is a function that is asked whether the pattern matches a text at
  an index; it answers with the index at which the match ends and the captured groups.
  As in the language's definition, a search with \<open>exec\<close> tries the indices from
  \<open>lastIndex\<close> up to and including the length of the text, and takes the first index
  at which the pattern matches.
\<close>

type_synonym matcher = "string \<Rightarrow> nat \<Rightarrow> (nat \<times> string list) option"

function exec_from :: "matcher \<Rightarrow> string \<Rightarrow> nat \<Rightarrow> (nat \<times> nat \<times> string list) option" where
  "exec_from m S i =
     (if i > length S then None
      else case m S i of
             Some (e, captures) \<Rightarrow> Some (i, e, captures)
           | None \<Rightarrow> exec_from m S (Suc i))"
  by pat_completeness auto
termination
  by (relation "measure (\<lambda>(m, S, i). Suc (length S) - i)") auto

declare exec_from.simps [simp del]

definition substring :: "string \<Rightarrow> nat \<Rightarrow> nat \<Rightarrow> string" where
  "substring S i e = take (e - i) (drop i S)"

definition startsWithAt :: "string \<Rightarrow> nat \<Rightarrow> string \<Rightarrow> bool" where
  "startsWithAt S i w = (take (length w) (drop i S) = w)"

subsection \<open>Word characters and the assertion \<open>\b\<close>\<close>

definition isWordChar :: "char \<Rightarrow> bool" where
  "isWordChar c =
     (let n = (of_char c :: nat)
      in (65 \<le> n \<and> n \<le> 90) \<or> (97 \<le> n \<and> n \<le> 122) \<or> (48 \<le> n \<and> n \<le> 57) \<or> n = 95)"

text \<open>The character at an index is a word character; false at \<open>-1\<close> and at the end.\<close>

definition wordCharAt :: "string \<Rightarrow> int \<Rightarrow> bool" where
  "wordCharAt S i = (0 \<le> i \<and> i < int (length S) \<and> isWordChar (S ! nat i))"

definition wordBoundary :: "string \<Rightarrow> nat \<Rightarrow> bool" where
  "wordBoundary S i = (wordCharAt S (int i - 1) \<noteq> wordCharAt S (int i))"

subsection \<open>The stock pattern \<open>\b(s1|...|sn)\b\<close>\<close>

text \<open>
  \<open>availableStocks.join('|')\<close> is put between \<open>\b(\<close> and \<open>)\b\<close> and compiled.
  When the joined text has none of the characters that are special in a pattern, bar
  apart, the pattern is the alternation of the branches between the bars, each branch
  a literal text: the branches are tried from left to right, and a branch is taken
  when the text continues with it and \<open>\b\<close> holds where it ends. For any other
  joined text the meaning of the pattern, or the SyntaxError that compiling it throws,
  is left to the pattern engine, which is a parameter: it gives the outcome of
  \<open>text.match(new RegExp(source, 'g'))\<close> for a source and a text.
\<close>

type_synonym regex_engine = "string \<Rightarrow> string \<Rightarrow> js_error + string list option"

definition isSyntaxChar :: "char \<Rightarrow> bool" where
  "isSyntaxChar c =
     (of_char c \<in> {92, 94, 36, 46, 42, 43, 63, 40, 41, 91, 93, 123, 125 :: nat})"

definition plain :: "string \<Rightarrow> bool" where
  "plain s = list_all (\<lambda>c. \<not> isSyntaxChar c) s"

fun join :: "string \<Rightarrow> string list \<Rightarrow> string" where
  "join sep [] = []"
| "join sep [x] = x"
| "join sep (x # y # ys) = x @ sep @ join sep (y # ys)"

fun split_bar :: "string \<Rightarrow> string list" where
  "split_bar [] = [[]]"
| "split_bar (c # cs) =
     (if c = CHR ''|'' then [] # split_bar cs
      else case split_bar cs of
             w # ws \<Rightarrow> (c # w) # ws
           | [] \<Rightarrow> [[c]])"

definition branches :: "string list \<Rightarrow> string list" where
  "branches availableStocks = split_bar (join ''|'' availableStocks)"

definition matchStock :: "string list \<Rightarrow> matcher" where
  "matchStock alts S i =
     (if wordBoundary S i
      then case find (\<lambda>a. startsWithAt S i a \<and> wordBoundary S (i + length a)) alts of
             Some a \<Rightarrow> Some (i + length a, [a])
           | None \<Rightarrow> None
      else None)"

subsection \<open>The parameter pattern \<open>p\[['"]([^'"]+)['"]\]\<close>\<close>

definition isQuote :: "char \<Rightarrow> bool" where
  "isQuote c = (c = CHR 0x27 \<or> c = CHR 0x22)"

text \<open>
  The group \<open>[^'"]+\<close> is greedy: it takes the longest run of characters that are not
  quotes. No shorter run can be followed by a quote, so the pattern matches with the
  longest run or not at all.
\<close>

definition matchParam :: matcher where
  "matchParam S i =
     (case drop i S of
        c1 # c2 # q # rest \<Rightarrow>
          if c1 = CHR ''p'' \<and> c2 = CHR ''['' \<and> isQuote q
          then (let name = takeWhile (\<lambda>c. \<not> isQuote c) rest
                in if name \<noteq> []
                   then case drop (length name) rest of
                          q2 # b # after \<Rightarrow>
                            if isQuote q2 \<and> b = CHR '']''
                            then Some (i + length name + 5, [name])
                            else None
                        | _ \<Rightarrow> None
                   else None)
          else None
      | _ \<Rightarrow> None)"

subsection \<open>What a search returns\<close>

lemma exec_from_Some:
  "exec_from m S L = Some (i, e, cs) \<Longrightarrow>
     L \<le> i \<and> i \<le> length S \<and> m S i = Some (e, cs) \<and> (\<forall>j. L \<le> j \<and> j < i \<longrightarrow> m S j = None)"
proof (induction m S L rule: exec_from.induct)
  case (1 m S k)
  show ?case
  proof (cases "m S k")
    case None
    with "1.prems" have le: "\<not> k > length S" and rec: "exec_from m S (Suc k) = Some (i, e, cs)"
      by (auto simp: exec_from.simps [of m S k] split: if_splits)
    from "1.IH" [OF le None rec] None show ?thesis
      by (auto simp: less_Suc_eq_le elim: le_SucE dest: le_neq_implies_less)
  next
    case (Some r)
    with "1.prems" show ?thesis
      by (auto simp: exec_from.simps [of m S k] split: if_splits prod.splits)
  qed
qed

lemma exec_from_None:
  "exec_from m S L = None \<Longrightarrow> L \<le> j \<Longrightarrow> j \<le> length S \<Longrightarrow> m S j = None"
proof (induction m S L rule: exec_from.induct)
  case (1 m S k)
  from "1.prems" have le: "\<not> k > length S" by simp
  from "1.prems"(1) le have here: "m S k = None"
    by (auto simp: exec_from.simps [of m S k] split: option.splits)
  with "1.prems"(1) le have rec: "exec_from m S (Suc k) = None"
    by (simp add: exec_from.simps [of m S k])
  show ?case
  proof (cases "j = k")
    case True
    with here show ?thesis by simp
  next
    case False
    with "1.prems" have "Suc k \<le> j" by simp
    from "1.IH" [OF le here rec this "1.prems"(3)] show ?thesis .
  qed
qed

lemma matchStock_end:
  "matchStock alts S i = Some (e, cs) \<Longrightarrow> i \<le> e"
  by (auto simp: matchStock_def split: if_splits option.splits)

lemma matchParam_end:
  "matchParam S i = Some (e, cs) \<Longrightarrow> i < e"
  by (auto simp: matchParam_def Let_def split: list.splits if_splits)

subsection \<open>\<open>String.prototype.match\<close> with a global pattern, and the \<open>exec\<close> loop\<close>

text \<open>
  \<open>text.match(stockPattern)\<close> starts at \<open>lastIndex = 0\<close> and collects the matched
  texts; after an empty match it moves \<open>lastIndex\<close> one character on. The state of the
  loop is \<open>lastIndex\<close> and the array built so far. The result is \<open>null\<close> when there is
  no match.
\<close>

function match_loop :: "string list \<Rightarrow> string \<Rightarrow> nat \<Rightarrow> string list \<Rightarrow> string list" where
  "match_loop alts S lastIndex A =
     (case exec_from (matchStock alts) S lastIndex of
        None \<Rightarrow> A
      | Some (i, e, captures) \<Rightarrow>
          (let matchStr = substring S i e
           in match_loop alts S (if matchStr = [] then e + 1 else e) (A @ [matchStr])))"
  by pat_completeness auto
termination
proof (relation "measure (\<lambda>(alts, S, lastIndex, A). Suc (length S) - lastIndex)", goal_cases)
  case 1
  show ?case by simp
next
  case (2 alts S lastIndex A x2 i y e captures matchStr)
  then have found: "exec_from (matchStock alts) S lastIndex = Some (i, e, captures)"
    by simp
  from exec_from_Some [OF found]
  have "lastIndex \<le> i" "i \<le> length S" "matchStock alts S i = Some (e, captures)"
    by auto
  moreover from this(3) have "i \<le> e" by (rule matchStock_end)
  moreover have "matchStr \<noteq> [] \<Longrightarrow> i < e"
    using 2 by (auto simp: substring_def)
  ultimately show ?case by auto
qed

declare match_loop.simps [simp del]

definition string_match :: "string \<Rightarrow> string list \<Rightarrow> string list option" where
  "string_match S alts =
     (let A = match_loop alts S 0 [] in if A = [] then None else Some A)"

text \<open>
  The loop \<open>while ((match = paramPattern.exec(text)) !== null)\<close> pushes the first
  group of each match; \<open>exec\<close> leaves \<open>lastIndex\<close> at the end of the match. The state
  of the loop is \<open>lastIndex\<close> and \<open>deps.parameters\<close>.
\<close>

function exec_loop :: "string \<Rightarrow> nat \<Rightarrow> string list \<Rightarrow> string list" where
  "exec_loop S lastIndex ps =
     (case exec_from matchParam S lastIndex of
        None \<Rightarrow> ps
      | Some (i, e, captures) \<Rightarrow> exec_loop S e (ps @ [captures ! 0]))"
  by pat_completeness auto
termination
proof (relation "measure (\<lambda>(S, lastIndex, ps). Suc (length S) - lastIndex)", goal_cases)
  case 1
  show ?case by simp
next
  case (2 S lastIndex ps x2 i y e captures)
  then have found: "exec_from matchParam S lastIndex = Some (i, e, captures)"
    by simp
  from exec_from_Some [OF found]
  have "lastIndex \<le> i" "i \<le> length S" "matchParam S i = Some (e, captures)"
    by auto
  moreover from this(3) have "i < e" by (rule matchParam_end)
  ultimately show ?case by auto
qed

declare exec_loop.simps [simp del]

text \<open>\<open>[...new Set(xs)]\<close>: the elements of \<open>xs\<close> in the order of their first occurrence.\<close>

definition set_add :: "'a list \<Rightarrow> 'a \<Rightarrow> 'a list" where
  "set_add s x = (if x \<in> set s then s else s @ [x])"

definition new_Set :: "'a list \<Rightarrow> 'a list" where
  "new_Set xs = foldl set_add [] xs"

subsection \<open>The dependencies of an equation\<close>

definition stock_matches :: "regex_engine \<Rightarrow> string \<Rightarrow> string list \<Rightarrow> js_error + string list option"
  where
  "stock_matches engine localEquation availableStocks =
     (let alternatives = join ''|'' availableStocks;
          source = [CHR 0x5C] @ ''b('' @ alternatives @ '')'' @ [CHR 0x5C] @ ''b''
      in if plain alternatives
         then Inr (string_match localEquation (split_bar alternatives))
         else engine source localEquation)"

text \<open>
  The memoised computation of the editor. It reads the equation text and the list of
  known stocks. The known parameters are a property of the component too, and the
  computation does not read them. An error thrown while the stock pattern is compiled
  leaves the computation.
\<close>

definition dependencies ::
  "regex_engine \<Rightarrow> string \<Rightarrow> string list \<Rightarrow> (string \<times> string \<times> real) list
     \<Rightarrow> js_error + EquationDependencies" where
  "dependencies engine localEquation availableStocks availableParameters =
     (case stock_matches engine localEquation availableStocks of
        Inl thrown \<Rightarrow> Inl thrown
      | Inr stockMatches \<Rightarrow>
         (let deps0 = \<lparr>stocks = [], parameters = []\<rparr>;
              deps1 = (case stockMatches of
                         Some ms \<Rightarrow> deps0\<lparr>stocks := new_Set ms\<rparr>
                       | None \<Rightarrow> deps0);
              deps2 = deps1\<lparr>parameters := exec_loop localEquation 0 (parameters deps1)\<rparr>
          in Inr (deps2\<lparr>parameters := new_Set (parameters deps2)\<rparr>)))"

subsection \<open>Symbols and references as they stand in the text\<close>

text \<open>
  A word is a text of word characters that is not empty. A word \<open>w\<close> stands at index
  \<open>i\<close> of a text as a token when the text continues with \<open>w\<close> at \<open>i\<close> and the
  characters next to it on both sides, if any, are not word characters.
\<close>

definition is_word :: "string \<Rightarrow> bool" where
  "is_word w = (w \<noteq> [] \<and> list_all isWordChar w)"

definition token_at :: "string \<Rightarrow> nat \<Rightarrow> string \<Rightarrow> bool" where
  "token_at S i w =
     (is_word w \<and> startsWithAt S i w
      \<and> \<not> wordCharAt S (int i - 1) \<and> \<not> wordCharAt S (int (i + length w)))"

definition standalone_token :: "string \<Rightarrow> string \<Rightarrow> bool" where
  "standalone_token S w = list_ex (\<lambda>i. token_at S i w) [0 ..< length S]"

text \<open>
  A bracketed lookup of the name \<open>n\<close> stands at index \<open>i\<close>, opened by the quote
  \<open>q\<close> and closed by the quote \<open>q'\<close>, when the text continues there with \<open>p[\<close>,
  \<open>q\<close>, \<open>n\<close>, \<open>q'\<close> and \<open>]\<close>, where \<open>n\<close> is not empty and has no quote.
\<close>

definition lookup_at :: "string \<Rightarrow> nat \<Rightarrow> char \<Rightarrow> string \<Rightarrow> char \<Rightarrow> bool" where
  "lookup_at S i q n q' =
     (n \<noteq> [] \<and> list_all (\<lambda>c. \<not> isQuote c) n
      \<and> startsWithAt S i (''p['' @ [q] @ n @ [q'] @ '']''))"

text \<open>
  A name is referenced at an index when it is looked up there between two single
  quotes or between two double quotes: \<open>p['name']\<close> or \<open>p["name"]\<close>.
\<close>

definition reference_at :: "string \<Rightarrow> nat \<Rightarrow> string \<Rightarrow> bool" where
  "reference_at S i n =
     (lookup_at S i (CHR 0x27) n (CHR 0x27) \<or> lookup_at S i (CHR 0x22) n (CHR 0x22))"

definition referenced_parameter :: "string \<Rightarrow> string \<Rightarrow> bool" where
  "referenced_parameter S n = list_ex (\<lambda>i. reference_at S i n) [0 ..< length S]"

text \<open>
  A lookup with mixed quotes is opened by one kind of quote and closed by the other,
  as in \<open>p['name"]\<close>. A text has one when a name that begins three characters after
  some index is so bracketed there.
\<close>

definition mixed_at :: "string \<Rightarrow> nat \<Rightarrow> string \<Rightarrow> bool" where
  "mixed_at S i n =
     (lookup_at S i (CHR 0x27) n (CHR 0x22) \<or> lookup_at S i (CHR 0x22) n (CHR 0x27))"

definition has_mixed_quotes :: "string \<Rightarrow> bool" where
  "has_mixed_quotes S =
     list_ex (\<lambda>i. list_ex (\<lambda>k. mixed_at S i (take k (drop (i + 3) S))) [1 ..< length S])
             [0 ..< length S]"

text \<open>A bracketed name, whatever its two quotes.\<close>

definition bracket_at :: "string \<Rightarrow> nat \<Rightarrow> string \<Rightarrow> bool" where
  "bracket_at S i n = (reference_at S i n \<or> mixed_at S i n)"

text \<open>Texts and symbol lists on which the extraction is run below.\<close>

definition target_equation :: string where
  "target_equation =
     ''clamp(p['' @ [CHR 0x27] @ ''surveillance_to_targeting'' @ [CHR 0x27]
       @ ''] * S + 0.2 * R, 0, 1)''"

definition unknown_reference :: string where
  "unknown_reference = ''0.5 * p['' @ [CHR 0x22] @ ''kX'' @ [CHR 0x22] @ '']''"

definition mixed_reference :: string where
  "mixed_reference = ''p['' @ [CHR 0x27] @ ''a'' @ [CHR 0x22] @ '']''"

definition known_parameters :: "(string \<times> string \<times> real) list" where
  "known_parameters = [(''kT'', ''Targeting rate'', 7 / 10)]"

text \<open>
  An engine that refuses every pattern. The computation does not ask it when the known
  stocks have no special character.
\<close>

definition refusing_engine :: regex_engine where
  "refusing_engine source txt = Inl (SyntaxError ''Invalid regular expression'')"

section \<open>The extraction on a store of objects\<close>

text \<open>
  The memoised computation creates objects and writes to them: the object \<open>deps\<close>
  and its two arrays, the two pattern objects with their \<open>lastIndex\<close>, the arrays
  that \<open>match\<close> and \<open>exec\<close> return, and the sets. The list of known stocks that it
  reads is an array too, which the component receives by reference. To say what a run
  reads and writes, and what it leaves for the next run, the objects are kept in a
  store: a list of objects, in which the address of an object is its index and a new
  object goes to the end. A text is a primitive value that cannot be written to, and
  is not kept in the store. A pattern object's source and flags never change; the
  store keeps its one property that does, \<open>lastIndex\<close>.
\<close>

type_synonym addr = nat

datatype heap_object =
    StringArray "string list"
  | RegExp_lastIndex nat
  | Deps_object addr addr
  | Parameter_record "(string \<times> string \<times> real) list"
  | String_Set "string list"

type_synonym heap = "heap_object list"

definition heap_get :: "heap \<Rightarrow> addr \<Rightarrow> heap_object option" where
  "heap_get h a = (if a < length h then Some (h ! a) else None)"

definition heap_alloc :: "heap_object \<Rightarrow> heap \<Rightarrow> addr \<times> heap" where
  "heap_alloc obj h = (length h, h @ [obj])"

text \<open>
  Reading an object as an array, as a pattern or as \<open>deps\<close>. The code is typed, so
  an address always holds an object of the kind that the code expects; for any other
  object the operation throws a TypeError, as the language does. An operation on the
  store that throws gives the error together with the store as it is at the throw.
\<close>

definition array_of :: "heap \<Rightarrow> addr \<Rightarrow> js_error + string list" where
  "array_of h a =
     (case heap_get h a of
        Some (StringArray xs) \<Rightarrow> Inr xs
      | _ \<Rightarrow> Inl (TypeError ''not an array''))"

definition lastIndex_of :: "heap \<Rightarrow> addr \<Rightarrow> js_error + nat" where
  "lastIndex_of h rx =
     (case heap_get h rx of
        Some (RegExp_lastIndex lastIndex) \<Rightarrow> Inr lastIndex
      | _ \<Rightarrow> Inl (TypeError ''not a RegExp''))"

definition deps_of :: "heap \<Rightarrow> addr \<Rightarrow> js_error + addr \<times> addr" where
  "deps_of h d =
     (case heap_get h d of
        Some (Deps_object s p) \<Rightarrow> Inr (s, p)
      | _ \<Rightarrow> Inl (TypeError ''Cannot read properties of undefined''))"

text \<open>\<open>array.push(x)\<close>, \<open>deps.stocks = a\<close> and \<open>deps.parameters = a\<close>.\<close>

definition array_push :: "addr \<Rightarrow> string \<Rightarrow> heap \<Rightarrow> js_error \<times> heap + heap" where
  "array_push a x h =
     (case array_of h a of
        Inl thrown \<Rightarrow> Inl (thrown, h)
      | Inr xs \<Rightarrow> Inr (h[a := StringArray (xs @ [x])]))"

definition set_stocks :: "addr \<Rightarrow> addr \<Rightarrow> heap \<Rightarrow> js_error \<times> heap + heap" where
  "set_stocks d a h =
     (case deps_of h d of
        Inl thrown \<Rightarrow> Inl (thrown, h)
      | Inr (s, p) \<Rightarrow> Inr (h[d := Deps_object a p]))"

definition set_parameters :: "addr \<Rightarrow> addr \<Rightarrow> heap \<Rightarrow> js_error \<times> heap + heap" where
  "set_parameters d a h =
     (case deps_of h d of
        Inl thrown \<Rightarrow> Inl (thrown, h)
      | Inr (s, p) \<Rightarrow> Inr (h[d := Deps_object s a]))"

text \<open>
  \<open>pattern.exec(text)\<close> for a global pattern: the search starts at the pattern's
  \<open>lastIndex\<close>. When nothing is found, \<open>lastIndex\<close> is set to 0 and the result is
  \<open>null\<close>. Otherwise \<open>lastIndex\<close> is set to the end of the match and the result is
  a new array of the matched text and the groups.
\<close>

definition RegExp_exec ::
  "matcher \<Rightarrow> addr \<Rightarrow> string \<Rightarrow> heap \<Rightarrow> js_error \<times> heap + addr option \<times> heap" where
  "RegExp_exec pattern rx S h =
     (case lastIndex_of h rx of
        Inl thrown \<Rightarrow> Inl (thrown, h)
      | Inr lastIndex \<Rightarrow>
         (case exec_from pattern S lastIndex of
            None \<Rightarrow> Inr (None, h[rx := RegExp_lastIndex 0])
          | Some (i, e, captures) \<Rightarrow>
              (let (result, h') = heap_alloc (StringArray (substring S i e # captures))
                                    (h[rx := RegExp_lastIndex e])
               in Inr (Some result, h'))))"

subsection \<open>What the operations leave in the store\<close>

lemma heap_get_update:
  "heap_get (h[a := obj]) b =
     (if b < length h then (if b = a then Some obj else Some (h ! b)) else None)"
  by (simp add: heap_get_def)

lemma heap_get_append:
  "heap_get (h @ [obj]) b =
     (if b < length h then Some (h ! b) else if b = length h then Some obj else None)"
  by (simp add: heap_get_def nth_append)

lemma lastIndex_of_Inr:
  "lastIndex_of h rx = Inr li \<Longrightarrow> rx < length h \<and> h ! rx = RegExp_lastIndex li"
  by (auto simp: lastIndex_of_def heap_get_def split: if_splits heap_object.splits)

lemma array_of_Inr:
  "array_of h a = Inr xs \<Longrightarrow> a < length h \<and> h ! a = StringArray xs"
  by (auto simp: array_of_def heap_get_def split: if_splits heap_object.splits)

lemma deps_of_Inr:
  "deps_of h d = Inr (s, p) \<Longrightarrow> d < length h \<and> h ! d = Deps_object s p"
  by (auto simp: deps_of_def heap_get_def split: if_splits heap_object.splits)

lemma RegExp_exec_Some:
  assumes "RegExp_exec m rx S h = Inr (Some r, h1)"
  shows "\<exists>li i e cs. rx < length h \<and> h ! rx = RegExp_lastIndex li
           \<and> exec_from m S li = Some (i, e, cs) \<and> r = length h
           \<and> h1 = h[rx := RegExp_lastIndex e] @ [StringArray (substring S i e # cs)]"
  using assms lastIndex_of_Inr [of h rx]
  by (auto simp: RegExp_exec_def heap_alloc_def split: sum.splits option.splits)

lemma RegExp_exec_None:
  assumes "RegExp_exec m rx S h = Inr (None, h1)"
  shows "\<exists>li. rx < length h \<and> h ! rx = RegExp_lastIndex li
           \<and> exec_from m S li = None \<and> h1 = h[rx := RegExp_lastIndex 0]"
  using assms lastIndex_of_Inr [of h rx]
  by (auto simp: RegExp_exec_def heap_alloc_def split: sum.splits option.splits)

lemma array_push_Inr:
  "array_push a x h = Inr h2 \<Longrightarrow>
   \<exists>xs. a < length h \<and> h ! a = StringArray xs \<and> h2 = h[a := StringArray (xs @ [x])]"
  using array_of_Inr [of h a]
  by (auto simp: array_push_def split: sum.splits)

subsection \<open>The two loops\<close>

text \<open>
  The loop of \<open>text.match(pattern)\<close> for a global pattern: each round calls \<open>exec\<close>,
  reads the matched text from the array that \<open>exec\<close> returns and adds it to the
  result array \<open>A\<close>; after an empty match it reads \<open>lastIndex\<close> and moves it one
  character on.
\<close>

function match_loop_h ::
  "string list \<Rightarrow> string \<Rightarrow> addr \<Rightarrow> addr \<Rightarrow> heap \<Rightarrow> js_error \<times> heap + heap" where
  "match_loop_h alts S rx A h =
     (case RegExp_exec (matchStock alts) rx S h of
        Inl thrown \<Rightarrow> Inl thrown
      | Inr (None, h1) \<Rightarrow> Inr h1
      | Inr (Some result, h1) \<Rightarrow>
         (case array_of h1 result of
            Inl thrown \<Rightarrow> Inl (thrown, h1)
          | Inr r \<Rightarrow>
             (let matchStr = r ! 0
              in case array_push A matchStr h1 of
                   Inl thrown \<Rightarrow> Inl thrown
                 | Inr h2 \<Rightarrow>
                     if matchStr = []
                     then (case lastIndex_of h2 rx of
                             Inl thrown \<Rightarrow> Inl (thrown, h2)
                           | Inr thisIndex \<Rightarrow>
                               match_loop_h alts S rx A
                                 (h2[rx := RegExp_lastIndex (thisIndex + 1)]))
                     else match_loop_h alts S rx A h2)))"
  by pat_completeness auto
termination
proof (relation "measure (\<lambda>(alts, S, rx, A, h).
                   case lastIndex_of h rx of Inr li \<Rightarrow> Suc (length S) - li | Inl e \<Rightarrow> 0)",
       goal_cases)
  case 1
  show ?case by simp
next
  case (2 alts S rx A h b x h1 result xs matchStr h2 thisIndex)
  then have ex: "RegExp_exec (matchStock alts) rx S h = Inr (Some result, h1)"
    and arr: "array_of h1 result = Inr xs" and m: "matchStr = xs ! 0"
    and push: "array_push A matchStr h1 = Inr h2" and empty: "matchStr = []"
    and ti: "lastIndex_of h2 rx = Inr thisIndex"
    by auto
  from RegExp_exec_Some [OF ex] obtain li i e cs where rx: "rx < length h"
    and li: "h ! rx = RegExp_lastIndex li"
    and found: "exec_from (matchStock alts) S li = Some (i, e, cs)"
    and result: "result = length h"
    and h1: "h1 = h[rx := RegExp_lastIndex e] @ [StringArray (substring S i e # cs)]"
    by blast
  from exec_from_Some [OF found] have b: "li \<le> i" "i \<le> length S"
    and ms: "matchStock alts S i = Some (e, cs)" by auto
  from ms have ie: "i \<le> e" by (rule matchStock_end)
  from array_push_Inr [OF push] obtain ys where A: "A < length h1"
    and hA: "h1 ! A = StringArray ys" and h2: "h2 = h1[A := StringArray (ys @ [matchStr])]"
    by blast
  have rx1: "h1 ! rx = RegExp_lastIndex e" using rx by (simp add: h1 nth_append)
  with hA have ne: "A \<noteq> rx" by auto
  have "h2 ! rx = RegExp_lastIndex e" using ne rx1 by (simp add: h2)
  with lastIndex_of_Inr [OF ti] have t: "thisIndex = e" by simp
  have len: "rx < length h2" using rx by (simp add: h2 h1)
  have before: "lastIndex_of h rx = Inr li"
    using rx li by (simp add: lastIndex_of_def heap_get_def)
  have after: "lastIndex_of (h2[rx := RegExp_lastIndex (Suc thisIndex)]) rx = Inr (Suc e)"
    using len t by (simp add: lastIndex_of_def heap_get_def)
  show ?case
    using b ie by (simp add: before after)
next
  case (3 alts S rx A h b x h1 result xs matchStr h2)
  then have ex: "RegExp_exec (matchStock alts) rx S h = Inr (Some result, h1)"
    and arr: "array_of h1 result = Inr xs" and m: "matchStr = xs ! 0"
    and push: "array_push A matchStr h1 = Inr h2" and nonempty: "matchStr \<noteq> []"
    by auto
  from RegExp_exec_Some [OF ex] obtain li i e cs where rx: "rx < length h"
    and li: "h ! rx = RegExp_lastIndex li"
    and found: "exec_from (matchStock alts) S li = Some (i, e, cs)"
    and result: "result = length h"
    and h1: "h1 = h[rx := RegExp_lastIndex e] @ [StringArray (substring S i e # cs)]"
    by blast
  from exec_from_Some [OF found] have b: "li \<le> i" "i \<le> length S" by auto
  have "xs = substring S i e # cs"
    using array_of_Inr [OF arr] by (simp add: result h1 nth_append)
  with m nonempty have "substring S i e \<noteq> []" by simp
  then have ie: "i < e" by (auto simp: substring_def)
  from array_push_Inr [OF push] obtain ys where A: "A < length h1"
    and hA: "h1 ! A = StringArray ys" and h2: "h2 = h1[A := StringArray (ys @ [matchStr])]"
    by blast
  have rx1: "h1 ! rx = RegExp_lastIndex e" using rx by (simp add: h1 nth_append)
  with hA have ne: "A \<noteq> rx" by auto
  have len: "rx < length h2" using rx by (simp add: h2 h1)
  have before: "lastIndex_of h rx = Inr li"
    using rx li by (simp add: lastIndex_of_def heap_get_def)
  have after: "lastIndex_of h2 rx = Inr e"
    using len ne rx1 by (simp add: lastIndex_of_def heap_get_def h2)
  show ?case
    using b ie by (simp add: before after)
qed

declare match_loop_h.simps [simp del]

text \<open>
  The loop \<open>while ((match = paramPattern.exec(text)) !== null)
  deps.parameters.push(match[1])\<close>.
\<close>

function exec_loop_h :: "string \<Rightarrow> addr \<Rightarrow> addr \<Rightarrow> heap \<Rightarrow> js_error \<times> heap + heap" where
  "exec_loop_h S rx deps h =
     (case RegExp_exec matchParam rx S h of
        Inl thrown \<Rightarrow> Inl thrown
      | Inr (None, h1) \<Rightarrow> Inr h1
      | Inr (Some match, h1) \<Rightarrow>
         (case array_of h1 match of
            Inl thrown \<Rightarrow> Inl (thrown, h1)
          | Inr m \<Rightarrow>
             (case deps_of h1 deps of
                Inl thrown \<Rightarrow> Inl (thrown, h1)
              | Inr (deps_stocks, deps_parameters) \<Rightarrow>
                 (case array_push deps_parameters (m ! 1) h1 of
                    Inl thrown \<Rightarrow> Inl thrown
                  | Inr h2 \<Rightarrow> exec_loop_h S rx deps h2))))"
  by pat_completeness auto
termination
proof (relation "measure (\<lambda>(S, rx, deps, h).
                   case lastIndex_of h rx of Inr li \<Rightarrow> Suc (length S) - li | Inl e \<Rightarrow> 0)",
       goal_cases)
  case 1
  show ?case by simp
next
  case (2 S rx deps h b x h1 match m sp deps_stocks deps_parameters h2)
  then have ex: "RegExp_exec matchParam rx S h = Inr (Some match, h1)"
    and push: "array_push deps_parameters (m ! 1) h1 = Inr h2"
    by auto
  from RegExp_exec_Some [OF ex] obtain li i e cs where rx: "rx < length h"
    and li: "h ! rx = RegExp_lastIndex li"
    and found: "exec_from matchParam S li = Some (i, e, cs)"
    and h1: "h1 = h[rx := RegExp_lastIndex e] @ [StringArray (substring S i e # cs)]"
    by blast
  from exec_from_Some [OF found] have b: "li \<le> i" "i \<le> length S"
    and ms: "matchParam S i = Some (e, cs)" by auto
  from ms have ie: "i < e" by (rule matchParam_end)
  from array_push_Inr [OF push] obtain ys where A: "deps_parameters < length h1"
    and hA: "h1 ! deps_parameters = StringArray ys"
    and h2: "h2 = h1[deps_parameters := StringArray (ys @ [m ! 1])]"
    by blast
  have rx1: "h1 ! rx = RegExp_lastIndex e" using rx by (simp add: h1 nth_append)
  with hA have ne: "deps_parameters \<noteq> rx" by auto
  have len: "rx < length h2" using rx by (simp add: h2 h1)
  have before: "lastIndex_of h rx = Inr li"
    using rx li by (simp add: lastIndex_of_def heap_get_def)
  have after: "lastIndex_of h2 rx = Inr e"
    using len ne rx1 by (simp add: lastIndex_of_def heap_get_def h2)
  show ?case
    using b ie by (simp add: before after)
qed

declare exec_loop_h.simps [simp del]

subsection \<open>The computation\<close>

text \<open>
  \<open>text.match(pattern)\<close> for a global pattern sets \<open>lastIndex\<close> to 0, creates the
  result array and runs the loop; the result is \<open>null\<close> when the array stays empty.
\<close>

definition string_match_h ::
  "string list \<Rightarrow> string \<Rightarrow> addr \<Rightarrow> heap \<Rightarrow> js_error \<times> heap + addr option \<times> heap" where
  "string_match_h alts S rx h =
     (case lastIndex_of h rx of
        Inl thrown \<Rightarrow> Inl (thrown, h)
      | Inr lastIndex \<Rightarrow>
         (let (A, h1) = heap_alloc (StringArray []) (h[rx := RegExp_lastIndex 0])
          in case match_loop_h alts S rx A h1 of
               Inl thrown \<Rightarrow> Inl thrown
             | Inr h2 \<Rightarrow>
                (case array_of h2 A of
                   Inl thrown \<Rightarrow> Inl (thrown, h2)
                 | Inr ms \<Rightarrow> Inr (if ms = [] then None else Some A, h2))))"

text \<open>
  \<open>new RegExp(`\\b(${availableStocks.join('|')})\\b`, 'g')\<close> and
  \<open>localEquation.match(stockPattern)\<close>. The array of known stocks is read once, by
  \<open>join\<close>. A joined text with special characters goes to the engine, which throws or
  gives the matches.
\<close>

definition stock_matches_h ::
  "regex_engine \<Rightarrow> string \<Rightarrow> addr \<Rightarrow> heap \<Rightarrow> js_error \<times> heap + addr option \<times> heap" where
  "stock_matches_h engine localEquation availableStocks h =
     (case array_of h availableStocks of
        Inl thrown \<Rightarrow> Inl (thrown, h)
      | Inr known \<Rightarrow>
         (let alternatives = join ''|'' known;
              source = [CHR 0x5C] @ ''b('' @ alternatives @ '')'' @ [CHR 0x5C] @ ''b''
          in if plain alternatives
             then (let (stockPattern, h1) = heap_alloc (RegExp_lastIndex 0) h
                   in string_match_h (split_bar alternatives) localEquation stockPattern h1)
             else (case engine source localEquation of
                     Inl thrown \<Rightarrow> Inl (thrown, h)
                   | Inr stockMatches \<Rightarrow>
                      (let (stockPattern, h1) = heap_alloc (RegExp_lastIndex 0) h
                       in case stockMatches of
                            None \<Rightarrow> Inr (None, h1)
                          | Some ms \<Rightarrow>
                              (let (A, h2) = heap_alloc (StringArray ms) h1
                               in Inr (Some A, h2))))))"

text \<open>\<open>[...new Set(array)]\<close>: a new set of the array's elements, spread into a new array.\<close>

definition spread_new_Set :: "addr \<Rightarrow> heap \<Rightarrow> js_error \<times> heap + addr \<times> heap" where
  "spread_new_Set a h =
     (case array_of h a of
        Inl thrown \<Rightarrow> Inl (thrown, h)
      | Inr xs \<Rightarrow>
         (let (s, h1) = heap_alloc (String_Set (new_Set xs)) h;
              (unique, h2) = heap_alloc (StringArray (new_Set xs)) h1
          in Inr (unique, h2)))"

text \<open>
  The statements that extract the stock references: the pattern is made and matched,
  and when there are matches \<open>deps.stocks\<close> is set to the new array of the distinct
  ones.
\<close>

definition extract_stocks ::
  "regex_engine \<Rightarrow> string \<Rightarrow> addr \<Rightarrow> addr \<Rightarrow> heap \<Rightarrow> js_error \<times> heap + heap" where
  "extract_stocks engine localEquation availableStocks deps h =
     (case stock_matches_h engine localEquation availableStocks h of
        Inl thrown \<Rightarrow> Inl thrown
      | Inr (stockMatches, h1) \<Rightarrow>
         (case stockMatches of
            None \<Rightarrow> Inr h1
          | Some ms \<Rightarrow>
             (case spread_new_Set ms h1 of
                Inl thrown \<Rightarrow> Inl thrown
              | Inr (unique, h2) \<Rightarrow> set_stocks deps unique h2)))"

text \<open>
  The statements that extract the parameter references: a new pattern object, the
  loop, and \<open>deps.parameters = [...new Set(deps.parameters)]\<close>.
\<close>

definition extract_parameters :: "string \<Rightarrow> addr \<Rightarrow> heap \<Rightarrow> js_error \<times> heap + heap" where
  "extract_parameters localEquation deps h =
     (let (paramPattern, h1) = heap_alloc (RegExp_lastIndex 0) h
      in case exec_loop_h localEquation paramPattern deps h1 of
           Inl thrown \<Rightarrow> Inl thrown
         | Inr h2 \<Rightarrow>
            (case deps_of h2 deps of
               Inl thrown \<Rightarrow> Inl (thrown, h2)
             | Inr (deps_stocks, deps_parameters) \<Rightarrow>
                (case spread_new_Set deps_parameters h2 of
                   Inl thrown \<Rightarrow> Inl thrown
                 | Inr (unique, h3) \<Rightarrow> set_parameters deps unique h3)))"

text \<open>
  The function given to \<open>useMemo\<close>. It is called with the equation text and the
  address of the array of known stocks, in the store as it is at the time of the call.
  It creates \<open>deps\<close> with two empty arrays, extracts the stocks and the parameters,
  and returns the address of \<open>deps\<close> and the store that it leaves, or throws and
  leaves a store. The record of
  known parameters is in the store as well; the function has no reference to it.
\<close>

definition dependencies_run ::
  "regex_engine \<Rightarrow> string \<Rightarrow> addr \<Rightarrow> heap \<Rightarrow> js_error \<times> heap + addr \<times> heap" where
  "dependencies_run engine localEquation availableStocks h =
     (let (stocks0, h1) = heap_alloc (StringArray []) h;
          (parameters0, h2) = heap_alloc (StringArray []) h1;
          (deps, h3) = heap_alloc (Deps_object stocks0 parameters0) h2
      in case extract_stocks engine localEquation availableStocks deps h3 of
           Inl thrown \<Rightarrow> Inl thrown
         | Inr h4 \<Rightarrow>
            (case extract_parameters localEquation deps h4 of
               Inl thrown \<Rightarrow> Inl thrown
             | Inr h5 \<Rightarrow> Inr (deps, h5)))"

text \<open>The dependencies that the object at an address holds, read from the store.\<close>

definition deps_value :: "heap \<Rightarrow> addr \<Rightarrow> EquationDependencies option" where
  "deps_value h d =
     (case deps_of h d of
        Inl thrown \<Rightarrow> None
      | Inr (s, p) \<Rightarrow>
         (case array_of h s of
            Inl thrown \<Rightarrow> None
          | Inr ss \<Rightarrow>
             (case array_of h p of
                Inl thrown \<Rightarrow> None
              | Inr ps \<Rightarrow> Some \<lparr>stocks = ss, parameters = ps\<rparr>)))"

text \<open>The outcome of a run: the error thrown, or the dependencies returned.\<close>

definition run_value ::
  "js_error \<times> heap + addr \<times> heap \<Rightarrow> js_error + EquationDependencies option" where
  "run_value r =
     (case r of Inl (thrown, h) \<Rightarrow> Inl thrown | Inr (d, h) \<Rightarrow> Inr (deps_value h d))"

subsection \<open>The memoised value\<close>

text \<open>
  The editor computes the dependencies inside \<open>useMemo\<close> with the dependency array
  \<open>[localEquation, availableStocks]\<close>. The cell of \<open>useMemo\<close> is empty at the first
  render; later it holds the dependency array and the value of the last computation.
  A render compares the entries of the array with \<open>Object.is\<close>, the text by its
  characters and the array of known stocks by its address, takes the stored value when
  both are the same, and calls the function anew otherwise. A render returns the
  address of the dependencies, the cell and the store; when the function throws, the
  render throws, and the cell stays as it was.
\<close>

type_synonym memo_cell = "((string \<times> addr) \<times> addr) option"

definition recompute ::
  "regex_engine \<Rightarrow> string \<Rightarrow> addr \<Rightarrow> heap
     \<Rightarrow> js_error \<times> heap + addr \<times> memo_cell \<times> heap" where
  "recompute engine localEquation availableStocks h =
     (case dependencies_run engine localEquation availableStocks h of
        Inl thrown \<Rightarrow> Inl thrown
      | Inr (v, h') \<Rightarrow> Inr (v, Some ((localEquation, availableStocks), v), h'))"

definition useMemo_dependencies ::
  "regex_engine \<Rightarrow> string \<Rightarrow> addr \<Rightarrow> memo_cell \<Rightarrow> heap
     \<Rightarrow> js_error \<times> heap + addr \<times> memo_cell \<times> heap" where
  "useMemo_dependencies engine localEquation availableStocks cell h =
     (case cell of
        None \<Rightarrow> recompute engine localEquation availableStocks h
      | Some (deps_array, v) \<Rightarrow>
          if deps_array = (localEquation, availableStocks) then Inr (v, cell, h)
          else recompute engine localEquation availableStocks h)"

text \<open>The outcome of a render.\<close>

definition rendered ::
  "js_error \<times> heap + addr \<times> memo_cell \<times> heap \<Rightarrow> js_error + EquationDependencies option"
  where
  "rendered r =
     (case r of Inl (thrown, h) \<Rightarrow> Inl thrown | Inr (d, cell, h) \<Rightarrow> Inr (deps_value h d))"

text \<open>
  Stores for the examples. The first holds the array of known stocks and the record of
  known parameters. The second holds other known parameters and what earlier
  computations left: a pattern object with \<open>lastIndex\<close> 7 and an array. The third
  holds known stocks of which one has a special character, so that the pattern goes to
  the engine.
\<close>

definition first_store :: heap where
  "first_store = [StringArray [''T'', ''S'', ''R''], Parameter_record known_parameters]"

definition second_store :: heap where
  "second_store =
     [RegExp_lastIndex 7, Parameter_record [], StringArray [''kT''],
      StringArray [''T'', ''S'', ''R'']]"

definition special_store :: heap where
  "special_store = [StringArray [''T'', ''S(''], Parameter_record known_parameters]"

section \<open>The expression evaluator\<close>

text \<open>
  Modelled from the spec: the Expression Evaluator (section 4.2) belongs to the
  backend and is not among the sources, which hold the front end only. The model
  follows the specification's contract \<open>evaluate(validated_expr, state_bindings,
  parameter_bindings) -> float | EvaluationError\<close> for the part of the grammar that
  has one reading: numeric literals, identifiers, parameter references, negation, the
  operators \<open>+ - * /\<close> and the functions \<open>clamp\<close>, \<open>min\<close>, \<open>max\<close>, \<open>abs\<close> and
  \<open>step\<close>. Numbers are real numbers; \<open>min\<close> and \<open>max\<close> return one of their
  arguments, so on them nothing is rounded.
\<close>

datatype EvaluationError = UnboundSymbol string | DomainError string

datatype expr =
    Num real
  | Ident string
  | ParamRef string
  | Neg expr
  | Plus expr expr
  | Minus expr expr
  | Times expr expr
  | Divide expr expr
  | Clamp expr expr expr
  | Min expr expr
  | Max expr expr
  | Abs expr
  | Step expr expr

text \<open>
  Modelled from the spec: the evaluator itself is missing. Section 4.2: literals return
  themselves; identifiers and parameter references look up the binding maps and fail
  with \<open>UnboundSymbol\<close> if absent; operators apply arithmetic; division by exact
  zero fails with \<open>DomainError\<close>; \<open>clamp(x,lo,hi) = min(max(x,lo),hi)\<close>;
  \<open>step(x,t) = 1 if x>=t else 0\<close>.
\<close>

fun evaluate ::
  "expr \<Rightarrow> (string \<rightharpoonup> real) \<Rightarrow> (string \<rightharpoonup> real) \<Rightarrow> EvaluationError + real" where
  "evaluate (Num x) st pa = Inr x"
| "evaluate (Ident v) st pa =
     (case st v of None \<Rightarrow> Inl (UnboundSymbol v) | Some x \<Rightarrow> Inr x)"
| "evaluate (ParamRef n) st pa =
     (case pa n of None \<Rightarrow> Inl (UnboundSymbol n) | Some x \<Rightarrow> Inr x)"
| "evaluate (Neg a) st pa = and_then (evaluate a st pa) (\<lambda>x. Inr (- x))"
| "evaluate (Plus a b) st pa =
     and_then (evaluate a st pa) (\<lambda>x. and_then (evaluate b st pa) (\<lambda>y. Inr (x + y)))"
| "evaluate (Minus a b) st pa =
     and_then (evaluate a st pa) (\<lambda>x. and_then (evaluate b st pa) (\<lambda>y. Inr (x - y)))"
| "evaluate (Times a b) st pa =
     and_then (evaluate a st pa) (\<lambda>x. and_then (evaluate b st pa) (\<lambda>y. Inr (x * y)))"
| "evaluate (Divide a b) st pa =
     and_then (evaluate a st pa) (\<lambda>x. and_then (evaluate b st pa) (\<lambda>y.
       if y = 0 then Inl (DomainError ''division by zero'') else Inr (x / y)))"
| "evaluate (Clamp a lo hi) st pa =
     and_then (evaluate a st pa) (\<lambda>x. and_then (evaluate lo st pa) (\<lambda>l.
       and_then (evaluate hi st pa) (\<lambda>h. Inr (min (max x l) h))))"
| "evaluate (Min a b) st pa =
     and_then (evaluate a st pa) (\<lambda>x. and_then (evaluate b st pa) (\<lambda>y. Inr (min x y)))"
| "evaluate (Max a b) st pa =
     and_then (evaluate a st pa) (\<lambda>x. and_then (evaluate b st pa) (\<lambda>y. Inr (max x y)))"
| "evaluate (Abs a) st pa = and_then (evaluate a st pa) (\<lambda>x. Inr \<bar>x\<bar>)"
| "evaluate (Step a b) st pa =
     and_then (evaluate a st pa) (\<lambda>x. and_then (evaluate b st pa) (\<lambda>th.
       Inr (if x \<ge> th then 1 else 0)))"

text \<open>The expression \<open>clamp(x, 0, 1)\<close> and the binding of \<open>x\<close> to a value.\<close>

definition clamp_x_0_1 :: expr where
  "clamp_x_0_1 = Clamp (Ident ''x'') (Num 0) (Num 1)"

definition x_is :: "real \<Rightarrow> (string \<rightharpoonup> real)" where
  "x_is v = [''x'' \<mapsto> v]"

section \<open>The merge engine\<close>

text \<open>
  Modelled from the spec: the Merge Engine and the Model Validator (sections 3, 4.3 and
  4.4) belong to the backend (\<open>models/patch_system.py\<close>) and are not among the
  sources; the front end holds the declaration of the result that the backend sends
  (\<open>MergeResult\<close>, with the counts \<open>applied_changes\<close> and \<open>skipped_changes\<close>) and
  the calls of \<open>validateDraft\<close> and \<open>applyDraft\<close>. Apart from that declaration the
  model follows the specification's words. Entities are kept in lists keyed by symbol, name or id. The
  Expression Validator of section 4.1 is a parameter of the engine: it takes an
  expression text, the known state symbols and the known parameter names, and returns
  an error or the dependencies of the expression. The operations are those that the
  backend's documentation lists: add, remove and update for states, relations,
  parameters, equations and scenarios. An update carries the new value of the entity.
\<close>

record StateVariable =
  sv_id :: string
  sv_name :: string
  sv_category :: string
  sv_initial :: real
  sv_min :: "real option"
  sv_max :: "real option"

record ModelParameter =
  mp_id :: string
  mp_value :: real
  mp_min :: "real option"
  mp_max :: "real option"
  mp_category :: string

record ModelRelation =
  rel_id :: string
  rel_source :: "string option"
  rel_target :: string
  rel_coefficient :: real
  rel_polarity :: string
  rel_description :: string

record Equation =
  target_expr :: string
  rate_expr :: string

record ModelScenario =
  ms_description :: string
  ms_param_overrides :: "(string \<times> real) list"
  ms_initial_overrides :: "(string \<times> real) list"

record ModelDocument =
  md_states :: "(string \<times> StateVariable) list"
  md_parameters :: "(string \<times> ModelParameter) list"
  md_relations :: "ModelRelation list"
  md_equations :: "(string \<times> Equation) list"
  md_scenarios :: "(string \<times> ModelScenario) list"

datatype ChangeOperation =
    AddState string StateVariable
  | RemoveState string
  | UpdateState string StateVariable
  | AddRelation ModelRelation
  | RemoveRelation string
  | UpdateRelation string ModelRelation
  | AddParameter string ModelParameter
  | RemoveParameter string
  | UpdateParameter string ModelParameter
  | AddEquation string Equation
  | UpdateEquation string Equation
  | RemoveEquation string
  | AddScenario string ModelScenario
  | UpdateScenario string ModelScenario
  | RemoveScenario string

datatype MergeSkip =
    DuplicateId string
  | MissingTarget string
  | UnknownState string
  | InvalidEquation string

type_synonym expression_validator =
  "string \<Rightarrow> string list \<Rightarrow> string list \<Rightarrow> string + (string list \<times> string list)"

definition state_symbols :: "ModelDocument \<Rightarrow> string list" where
  "state_symbols m = map fst (md_states m)"

definition parameter_names :: "ModelDocument \<Rightarrow> string list" where
  "parameter_names m = map fst (md_parameters m)"

definition relation_ids :: "ModelDocument \<Rightarrow> string list" where
  "relation_ids m = map rel_id (md_relations m)"

text \<open>
  A relation's source and target, when present, must name an existing state at the
  time the relation is committed.
\<close>

definition unknown_endpoint :: "ModelDocument \<Rightarrow> ModelRelation \<Rightarrow> string option" where
  "unknown_endpoint m r =
     (case rel_source r of
        Some s \<Rightarrow> if s \<notin> set (state_symbols m) then Some s
                  else if rel_target r \<notin> set (state_symbols m) then Some (rel_target r)
                  else None
      | None \<Rightarrow> if rel_target r \<notin> set (state_symbols m) then Some (rel_target r) else None)"

text \<open>
  Adding or updating an equation runs the Expression Validator on both expressions
  against the working state and parameter sets.
\<close>

definition check_equation ::
  "expression_validator \<Rightarrow> ModelDocument \<Rightarrow> Equation \<Rightarrow> string option" where
  "check_equation V m e =
     (case V (target_expr e) (state_symbols m) (parameter_names m) of
        Inl err \<Rightarrow> Some err
      | Inr deps \<Rightarrow>
         (case V (rate_expr e) (state_symbols m) (parameter_names m) of
            Inl err \<Rightarrow> Some err
          | Inr deps' \<Rightarrow> None))"

text \<open>The warnings that report what the removal of a state takes with it.\<close>

definition cascade_warnings :: "ModelDocument \<Rightarrow> string \<Rightarrow> string list" where
  "cascade_warnings m s =
     map (\<lambda>r. ''cascade: removed relation '' @ rel_id r)
         (filter (\<lambda>r. rel_source r = Some s \<or> rel_target r = s) (md_relations m))
     @ (if s \<in> fst ` set (md_equations m) then [''cascade: removed equation '' @ s] else [])"

text \<open>
  Modelled from the spec: the application of one operation is missing. Section 4.3:
  each operation is checked against the current working state; a duplicate id on add, a
  missing target on update or remove, and an equation that the Expression Validator
  rejects are failures, recorded as skips with a reason. Section 3: a relation's source
  and target must name an existing state when the relation is committed. Removing a
  state also removes every relation that has it as source or target and the equation
  keyed by it, and reports them in the warnings. The result is a skip with its reason,
  or the new document with the warnings of the operation.
\<close>

fun apply_change ::
  "expression_validator \<Rightarrow> ModelDocument \<Rightarrow> ChangeOperation
     \<Rightarrow> MergeSkip + (ModelDocument \<times> string list)" where
  "apply_change V m (AddState s v) =
     (if s \<in> set (state_symbols m) then Inl (DuplicateId s)
      else Inr (m\<lparr>md_states := md_states m @ [(s, v)]\<rparr>, []))"
| "apply_change V m (RemoveState s) =
     (if s \<notin> set (state_symbols m) then Inl (MissingTarget s)
      else Inr (m\<lparr>md_states := AList.delete s (md_states m),
                   md_relations :=
                     filter (\<lambda>r. \<not> (rel_source r = Some s \<or> rel_target r = s)) (md_relations m),
                   md_equations := AList.delete s (md_equations m)\<rparr>,
                cascade_warnings m s))"
| "apply_change V m (UpdateState s v) =
     (if s \<notin> set (state_symbols m) then Inl (MissingTarget s)
      else Inr (m\<lparr>md_states := AList.update s v (md_states m)\<rparr>, []))"
| "apply_change V m (AddRelation r) =
     (if rel_id r \<in> set (relation_ids m) then Inl (DuplicateId (rel_id r))
      else case unknown_endpoint m r of
             Some s \<Rightarrow> Inl (UnknownState s)
           | None \<Rightarrow> Inr (m\<lparr>md_relations := md_relations m @ [r]\<rparr>, []))"
| "apply_change V m (RemoveRelation i) =
     (if i \<notin> set (relation_ids m) then Inl (MissingTarget i)
      else Inr (m\<lparr>md_relations := filter (\<lambda>r. rel_id r \<noteq> i) (md_relations m)\<rparr>, []))"
| "apply_change V m (UpdateRelation i r) =
     (if i \<notin> set (relation_ids m) then Inl (MissingTarget i)
      else case unknown_endpoint m r of
             Some s \<Rightarrow> Inl (UnknownState s)
           | None \<Rightarrow>
               Inr (m\<lparr>md_relations :=
                         map (\<lambda>r'. if rel_id r' = i then r else r') (md_relations m)\<rparr>, []))"
| "apply_change V m (AddParameter n p) =
     (if n \<in> set (parameter_names m) then Inl (DuplicateId n)
      else Inr (m\<lparr>md_parameters := md_parameters m @ [(n, p)]\<rparr>, []))"
| "apply_change V m (RemoveParameter n) =
     (if n \<notin> set (parameter_names m) then Inl (MissingTarget n)
      else Inr (m\<lparr>md_parameters := AList.delete n (md_parameters m)\<rparr>, []))"
| "apply_change V m (UpdateParameter n p) =
     (if n \<notin> set (parameter_names m) then Inl (MissingTarget n)
      else Inr (m\<lparr>md_parameters := AList.update n p (md_parameters m)\<rparr>, []))"
| "apply_change V m (AddEquation s e) =
     (if s \<in> fst ` set (md_equations m) then Inl (DuplicateId s)
      else case check_equation V m e of
             Some err \<Rightarrow> Inl (InvalidEquation err)
           | None \<Rightarrow> Inr (m\<lparr>md_equations := md_equations m @ [(s, e)]\<rparr>, []))"
| "apply_change V m (UpdateEquation s e) =
     (if s \<notin> fst ` set (md_equations m) then Inl (MissingTarget s)
      else case check_equation V m e of
             Some err \<Rightarrow> Inl (InvalidEquation err)
           | None \<Rightarrow> Inr (m\<lparr>md_equations := AList.update s e (md_equations m)\<rparr>, []))"
| "apply_change V m (RemoveEquation s) =
     (if s \<notin> fst ` set (md_equations m) then Inl (MissingTarget s)
      else Inr (m\<lparr>md_equations := AList.delete s (md_equations m)\<rparr>, []))"
| "apply_change V m (AddScenario n sc) =
     (if n \<in> fst ` set (md_scenarios m) then Inl (DuplicateId n)
      else Inr (m\<lparr>md_scenarios := md_scenarios m @ [(n, sc)]\<rparr>, []))"
| "apply_change V m (UpdateScenario n sc) =
     (if n \<notin> fst ` set (md_scenarios m) then Inl (MissingTarget n)
      else Inr (m\<lparr>md_scenarios := AList.update n sc (md_scenarios m)\<rparr>, []))"
| "apply_change V m (RemoveScenario n) =
     (if n \<notin> fst ` set (md_scenarios m) then Inl (MissingTarget n)
      else Inr (m\<lparr>md_scenarios := AList.delete n (md_scenarios m)\<rparr>, []))"


subsection \<open>The Model Validator\<close>

text \<open>
  Modelled from the spec: the Model Validator is missing. It runs the checks of
  section 4.4, all of them, and reports every failure: relation
  endpoints name existing states; the expressions of every equation pass the
  Expression Validator against the current states and parameters; no two entities of
  a kind share a symbol, name or id; values lie in_bounds their declared bounds; every
  scenario override names a current parameter or state.
\<close>

record ValidationReport =
  valid :: bool
  report_errors :: "string list"
  report_warnings :: "string list"

definition in_bounds :: "real \<Rightarrow> real option \<Rightarrow> real option \<Rightarrow> bool" where
  "in_bounds x lo hi =
     ((case lo of None \<Rightarrow> True | Some l \<Rightarrow> l \<le> x) \<and> (case hi of None \<Rightarrow> True | Some h \<Rightarrow> x \<le> h))"

definition relation_errors :: "ModelDocument \<Rightarrow> string list" where
  "relation_errors m =
     concat (map (\<lambda>r. case unknown_endpoint m r of
                          Some s \<Rightarrow> [''relation '' @ rel_id r @ '' names unknown state '' @ s]
                        | None \<Rightarrow> [])
                 (md_relations m))"

definition equation_errors :: "expression_validator \<Rightarrow> ModelDocument \<Rightarrow> string list" where
  "equation_errors V m =
     concat (map (\<lambda>(s, e). case check_equation V m e of
                               Some err \<Rightarrow> [''equation '' @ s @ '': '' @ err]
                             | None \<Rightarrow> [])
                 (md_equations m))"

definition duplicate_errors :: "ModelDocument \<Rightarrow> string list" where
  "duplicate_errors m =
     (if distinct (state_symbols m) then [] else [''duplicate state symbol''])
     @ (if distinct (map (sv_id \<circ> snd) (md_states m)) then [] else [''duplicate state id''])
     @ (if distinct (parameter_names m) then [] else [''duplicate parameter name''])
     @ (if distinct (map (mp_id \<circ> snd) (md_parameters m)) then []
        else [''duplicate parameter id''])
     @ (if distinct (relation_ids m) then [] else [''duplicate relation id''])
     @ (if distinct (map fst (md_equations m)) then [] else [''duplicate equation''])
     @ (if distinct (map fst (md_scenarios m)) then [] else [''duplicate scenario name''])"

definition bound_errors :: "ModelDocument \<Rightarrow> string list" where
  "bound_errors m =
     concat (map (\<lambda>(s, v). if in_bounds (sv_initial v) (sv_min v) (sv_max v) then []
                             else [''state '' @ s @ '' out of bounds''])
                 (md_states m))
     @ concat (map (\<lambda>(n, p). if in_bounds (mp_value p) (mp_min p) (mp_max p) then []
                               else [''parameter '' @ n @ '' out of bounds''])
                   (md_parameters m))"

definition scenario_errors :: "ModelDocument \<Rightarrow> string list" where
  "scenario_errors m =
     concat (map (\<lambda>(n, sc).
                    map (\<lambda>k. ''scenario '' @ n @ '' overrides unknown parameter '' @ k)
                        (filter (\<lambda>k. k \<notin> set (parameter_names m))
                                (map fst (ms_param_overrides sc)))
                    @ map (\<lambda>k. ''scenario '' @ n @ '' overrides unknown state '' @ k)
                          (filter (\<lambda>k. k \<notin> set (state_symbols m))
                                  (map fst (ms_initial_overrides sc))))
                 (md_scenarios m))"

text \<open>
  Modelled from the spec: section 4.4, the validator returns a structured report that
  accumulates all errors rather than stopping at the first failure.
\<close>

definition validate_model :: "expression_validator \<Rightarrow> ModelDocument \<Rightarrow> ValidationReport" where
  "validate_model V m =
     (let errs = relation_errors m @ equation_errors V m @ duplicate_errors m
                 @ bound_errors m @ scenario_errors m
      in \<lparr>valid = (errs = []), report_errors = errs, report_warnings = []\<rparr>)"

subsection \<open>Merge\<close>

text \<open>
  Modelled from the spec: the merge itself is missing. Sections 3 and 4.3: the
  operations of the draft are applied in list order to a copy of the base, each
  against the working document that the operations before it left. A failure is
  recorded as a skip, with the index of the operation in the draft (from 0) and the
  reason, and the merge goes on with the next operation. Then the Model Validator runs
  on the working document. The working document is returned as the effective model
  when it passes, and discarded otherwise. The record \<open>merge_outcome\<close> is the result
  of the contract of section 4.3, together with the validator's report.
\<close>

datatype merge_mode = Preview | Commit

record merge_outcome =
  outcome_model :: "ModelDocument option"
  applied_count :: nat
  skipped :: "(nat \<times> MergeSkip) list"
  warnings :: "string list"
  validation :: ValidationReport
  treat_as_new_base :: bool

record working =
  document :: ModelDocument
  applied :: nat
  skips :: "(nat \<times> MergeSkip) list"
  pending_warnings :: "string list"

text \<open>
  Modelled from the spec: section 4.3, per-operation failures are recorded as skips
  with a structured reason, and the merge continues with the remaining operations.
\<close>

fun apply_changes ::
  "expression_validator \<Rightarrow> working \<Rightarrow> nat \<Rightarrow> ChangeOperation list \<Rightarrow> working" where
  "apply_changes V w i [] = w"
| "apply_changes V w i (c # cs) =
     (case apply_change V (document w) c of
        Inl why \<Rightarrow> apply_changes V (w\<lparr>skips := skips w @ [(i, why)]\<rparr>) (i + 1) cs
      | Inr (m, ws) \<Rightarrow>
          apply_changes V
            (w\<lparr>document := m, applied := applied w + 1,
               pending_warnings := pending_warnings w @ ws\<rparr>)
            (i + 1) cs)"

text \<open>
  Modelled from the spec: the contract \<open>merge(base_model, draft, mode) ->
  MergeResult{effective_model?, applied_count, skipped: [(index, error)], warnings}\<close>;
  after all operations are applied or skipped the Model Validator runs on the working
  document; \<open>commit\<close> additionally signals that the effective model should be
  treated as the new base.
\<close>

definition merge ::
  "expression_validator \<Rightarrow> ModelDocument \<Rightarrow> ChangeOperation list \<Rightarrow> merge_mode
     \<Rightarrow> merge_outcome"
  where
  "merge V base_model ops mode =
     (let w = apply_changes V
                \<lparr>document = base_model, applied = 0, skips = [], pending_warnings = []\<rparr> 0 ops;
          report = validate_model V (document w)
      in \<lparr>outcome_model = (if valid report then Some (document w) else None),
          applied_count = applied w,
          skipped = skips w,
          warnings = pending_warnings w @ report_warnings report,
          validation = report,
          treat_as_new_base = (mode = Commit \<and> valid report)\<rparr>)"

subsection \<open>The result that the front end receives\<close>













section \<open>Scenario values: override, then default\<close>









section \<open>Removing a change from a draft\<close>

lemma decimal_not_Nil: "decimal n \<noteq> []"
  by (subst decimal.simps) simp

lemma isDigit_digit: "d < 10 \<Longrightarrow> isDigit (digit d)"
  by (simp add: isDigit_def digit_def)

lemma decimal_digits: "list_all isDigit (decimal n)"
proof (induction n rule: decimal.induct)
  case (1 n)
  show ?case
  proof (cases "n < 10")
    case True
    then show ?thesis by (subst decimal.simps) (simp add: isDigit_digit)
  next
    case False
    then have "list_all isDigit (decimal (n div 10))" by (rule 1)
    moreover have "isDigit (digit (n mod 10))" by (rule isDigit_digit) simp
    ultimately show ?thesis using False by (subst decimal.simps) simp
  qed
qed

lemma digits_value_snoc:
  "digits_value (ds @ [c]) = 10 * digits_value ds + (of_char c - 48)"
  by (simp add: digits_value_def)

lemma of_char_digit: "d < 10 \<Longrightarrow> (of_char (digit d) :: nat) - 48 = d"
  by (simp add: digit_def)

lemma digits_value_decimal: "digits_value (decimal n) = n"
proof (induction n rule: decimal.induct)
  case (1 n)
  show ?case
  proof (cases "n < 10")
    case True
    then have "decimal n = [digit n]" by (subst decimal.simps) simp
    then show ?thesis using True by (simp add: digits_value_def of_char_digit)
  next
    case False
    then have ih: "digits_value (decimal (n div 10)) = n div 10" by (rule 1)
    have d: "decimal n = decimal (n div 10) @ [digit (n mod 10)]"
      using False by (subst decimal.simps) simp
    show ?thesis
      unfolding d digits_value_snoc ih by (simp add: of_char_digit)
  qed
qed

lemma decimal_leading_zero: "hd (decimal n) = CHR ''0'' \<Longrightarrow> n = 0"
proof (induction n rule: decimal.induct)
  case (1 n)
  show ?case
  proof (cases "n < 10")
    case True
    then have "decimal n = [digit n]" by (subst decimal.simps) simp
    with 1(2) have "digit n = CHR ''0''" by simp
    then have "(of_char (digit n) :: nat) - 48 = 0" by simp
    then show ?thesis using True by (simp add: of_char_digit)
  next
    case False
    have d: "decimal n = decimal (n div 10) @ [digit (n mod 10)]"
      using False by (subst decimal.simps) simp
    have "hd (decimal (n div 10)) = CHR ''0''"
      using 1(2) unfolding d by (simp add: decimal_not_Nil)
    with False have "n div 10 = 0" by (rule 1(1))
    with False show ?thesis by simp
  qed
qed

text \<open>
  Claim C4. Removing the change at an index of a draft sends one request: the DELETE,
  without a body, of \<open>http://localhost:8000/drafts/<draftId>/changes/<index>\<close>, where
  the index is printed as the decimal numeral, without leading zeros, that denotes it.
  The world is left as that one request leaves it. The call returns normally exactly
  when the backend answers that request with a response whose \<open>ok\<close> flag is set. In
  every other case the call raises: a response that is not ok raises the error
  \<open>Failed to remove change: <statusText>\<close>, and a rejected request raises the
  rejection itself. The call never returns normally without the backend's success.
\<close>

theorem removeChangeFromDraft_ok_iff:
  assumes "changeIndex < 2 ^ 53"
  shows "let ds = decimal changeIndex;
             sent = \<lparr>url = ''http://localhost:8000/drafts/'' @ draftId @ ''/changes/'' @ ds,
                     http_method = DELETE, body = None\<rparr>;
             answer = fst (fetch sent world);
             result = removeChangeFromDraft fetch draftId changeIndex world
         in ds \<noteq> [] \<and> list_all isDigit ds \<and> digits_value ds = changeIndex
          \<and> (hd ds = CHR ''0'' \<longrightarrow> changeIndex = 0)
          \<and> snd result = snd (fetch sent world)
          \<and> (fst result = Inr ()) = (\<exists>r. answer = Inr r \<and> ok r)
          \<and> (\<forall>r. answer = Inr r \<and> \<not> ok r \<longrightarrow>
                 fst result = Inl (Error (''Failed to remove change: '' @ statusText r)))
          \<and> (\<forall>e. answer = Inl e \<longrightarrow> fst result = Inl e)"
proof -
  have r: "removeChangeRequest draftId changeIndex =
             \<lparr>url = ''http://localhost:8000/drafts/'' @ draftId @ ''/changes/''
                      @ decimal changeIndex,
              http_method = DELETE, body = None\<rparr>"
    by (simp add: removeChangeRequest_def API_BASE_def)
  have "snd (removeChangeFromDraft fetch draftId changeIndex world)
          = snd (fetch (removeChangeRequest draftId changeIndex) world)"
    and "(fst (removeChangeFromDraft fetch draftId changeIndex world) = Inr ())
          = (\<exists>r. fst (fetch (removeChangeRequest draftId changeIndex) world) = Inr r \<and> ok r)"
    and "\<forall>r. fst (fetch (removeChangeRequest draftId changeIndex) world) = Inr r \<and> \<not> ok r
            \<longrightarrow> fst (removeChangeFromDraft fetch draftId changeIndex world)
                 = Inl (Error (''Failed to remove change: '' @ statusText r))"
    and "\<forall>e. fst (fetch (removeChangeRequest draftId changeIndex) world) = Inl e
            \<longrightarrow> fst (removeChangeFromDraft fetch draftId changeIndex world) = Inl e"
    unfolding removeChangeFromDraft_def
    by (cases "fetch (removeChangeRequest draftId changeIndex) world";
        auto split: sum.splits)+
  then show ?thesis
    unfolding Let_def r [symmetric]
    using decimal_not_Nil [of changeIndex] decimal_digits [of changeIndex]
      digits_value_decimal [of changeIndex] decimal_leading_zero [of changeIndex]
    by blast
qed

lemma decimal_1: "decimal 1 = ''1''"
  by code_simp

lemma decimal_2: "decimal 2 = ''2''"
  by code_simp

text \<open>
  Against the example backend: removing index 1 of \<open>draft_1\<close> returns normally and
  leaves the draft without its second change, and removing index 2, which the backend
  does not serve, raises \<open>Failed to remove change: Not Found\<close>. In both runs the log
  holds the one request that was sent.
\<close>

theorem removeChangeFromDraft_ok_iff_witness:
  "(1::nat) < 2 ^ 53 \<and> (2::nat) < 2 ^ 53
   \<and> removeChangeFromDraft toy_backend ''draft_1'' 1 toy_world
       = (Inr (),
          \<lparr>stored_drafts = [(''draft_1'', [''add_state'', ''add_rel''])],
           received = [\<lparr>url = ''http://localhost:8000/drafts/draft_1/changes/1'',
                        http_method = DELETE, body = None\<rparr>]\<rparr>)
   \<and> removeChangeFromDraft toy_backend ''draft_1'' 2 toy_world
       = (Inl (Error ''Failed to remove change: Not Found''),
          \<lparr>stored_drafts = [(''draft_1'', [''add_state'', ''update_param'', ''add_rel''])],
           received = [\<lparr>url = ''http://localhost:8000/drafts/draft_1/changes/2'',
                        http_method = DELETE, body = None\<rparr>]\<rparr>)"
proof -
  have b1: "(1::nat) < 2 ^ 53" and b2: "(2::nat) < 2 ^ 53" by simp_all
  note one = removeChangeFromDraft_ok_iff
    [OF b1, of "''draft_1''" toy_backend toy_world, unfolded Let_def decimal_1]
  note two = removeChangeFromDraft_ok_iff
    [OF b2, of "''draft_1''" toy_backend toy_world, unfolded Let_def decimal_2]
  have a1: "toy_backend \<lparr>url = ''http://localhost:8000/drafts/'' @ ''draft_1'' @ ''/changes/''
                               @ ''1'',
                         http_method = DELETE, body = None\<rparr> toy_world
              = (Inr \<lparr>ok = True, statusText = ''OK''\<rparr>,
                 \<lparr>stored_drafts = [(''draft_1'', [''add_state'', ''add_rel''])],
                  received = [\<lparr>url = ''http://localhost:8000/drafts/draft_1/changes/1'',
                               http_method = DELETE, body = None\<rparr>]\<rparr>)"
    by (simp add: toy_backend_def toy_world_def Let_def)
  have a2: "toy_backend \<lparr>url = ''http://localhost:8000/drafts/'' @ ''draft_1'' @ ''/changes/''
                               @ ''2'',
                         http_method = DELETE, body = None\<rparr> toy_world
              = (Inr \<lparr>ok = False, statusText = ''Not Found''\<rparr>,
                 \<lparr>stored_drafts = [(''draft_1'', [''add_state'', ''update_param'', ''add_rel''])],
                  received = [\<lparr>url = ''http://localhost:8000/drafts/draft_1/changes/2'',
                               http_method = DELETE, body = None\<rparr>]\<rparr>)"
    by (simp add: toy_backend_def toy_world_def Let_def)
  have f1: "fst (removeChangeFromDraft toy_backend ''draft_1'' 1 toy_world) = Inr ()"
    using one unfolding a1 by simp
  have s1: "snd (removeChangeFromDraft toy_backend ''draft_1'' 1 toy_world)
              = \<lparr>stored_drafts = [(''draft_1'', [''add_state'', ''add_rel''])],
                 received = [\<lparr>url = ''http://localhost:8000/drafts/draft_1/changes/1'',
                              http_method = DELETE, body = None\<rparr>]\<rparr>"
    using one unfolding a1 by simp
  have f2: "fst (removeChangeFromDraft toy_backend ''draft_1'' 2 toy_world)
              = Inl (Error ''Failed to remove change: Not Found'')"
    using two unfolding a2 by simp
  have s2: "snd (removeChangeFromDraft toy_backend ''draft_1'' 2 toy_world)
              = \<lparr>stored_drafts = [(''draft_1'', [''add_state'', ''update_param'', ''add_rel''])],
                 received = [\<lparr>url = ''http://localhost:8000/drafts/draft_1/changes/2'',
                              http_method = DELETE, body = None\<rparr>]\<rparr>"
    using two unfolding a2 by simp
  show ?thesis
    using b1 b2 f1 s1 f2 s2 by (simp add: prod_eq_iff)
qed
section \<open>At most three insights\<close>

lemma stateSeries_present:
  "key \<in> fst ` set (result_states result) \<Longrightarrow> \<exists>xs. stateSeries result key = Inr xs"
  by (cases "map_of (result_states result) key")
     (auto simp: stateSeries_def map_of_eq_None_iff)

lemma and_then_Inr [simp]: "and_then (Inr x) f = f x"
  by (simp add: and_then_def)

lemma and_then_Inl [simp]: "and_then (Inl e) f = Inl e"
  by (simp add: and_then_def)

lemma generateInsights_length:
  "generateInsights res scenarioName = Inr xs \<Longrightarrow> length xs \<le> 3"
  unfolding generateInsights_def Let_def
  by (auto simp: and_then_def split: option.splits sum.splits)

text \<open>
  Claim C9, as amended. For a \<open>null\<close> result \<open>generateInsights\<close> returns the empty
  list. For a simulation result whose \<open>states\<close> record has a series for each of
  \<open>X\<close>, \<open>L\<close>, \<open>V\<close>, \<open>T\<close>, \<open>S\<close>, \<open>D\<close>, \<open>E\<close> and \<open>R\<close>, and for every scenario name,
  it returns a list of at most three insights. Whenever it returns at all, the list has
  at most three elements.
\<close>

theorem generateInsights_at_most_three:
  "generateInsights None scenarioName = Inr []
   \<and> (set [''X'', ''L'', ''V'', ''T'', ''S'', ''D'', ''E'', ''R'']
        \<subseteq> fst ` set (result_states result) \<longrightarrow>
      (\<exists>xs. generateInsights (Some result) scenarioName = Inr xs \<and> length xs \<le> 3))
   \<and> (\<forall>xs. generateInsights res scenarioName = Inr xs \<longrightarrow> length xs \<le> 3)"
proof (intro conjI impI allI)
  show "generateInsights None scenarioName = Inr []"
    by (simp add: generateInsights_def)
next
  assume keys: "set [''X'', ''L'', ''V'', ''T'', ''S'', ''D'', ''E'', ''R'']
                  \<subseteq> fst ` set (result_states result)"
  obtain X where X: "stateSeries result ''X'' = Inr X"
    using keys stateSeries_present [of "''X''" result] by auto
  obtain L where L: "stateSeries result ''L'' = Inr L"
    using keys stateSeries_present [of "''L''" result] by auto
  obtain V where V: "stateSeries result ''V'' = Inr V"
    using keys stateSeries_present [of "''V''" result] by auto
  obtain T where T: "stateSeries result ''T'' = Inr T"
    using keys stateSeries_present [of "''T''" result] by auto
  obtain S where S: "stateSeries result ''S'' = Inr S"
    using keys stateSeries_present [of "''S''" result] by auto
  obtain D where D: "stateSeries result ''D'' = Inr D"
    using keys stateSeries_present [of "''D''" result] by auto
  obtain E where E: "stateSeries result ''E'' = Inr E"
    using keys stateSeries_present [of "''E''" result] by auto
  obtain R where R: "stateSeries result ''R'' = Inr R"
    using keys stateSeries_present [of "''R''" result] by auto
  have "\<exists>xs. generateInsights (Some result) scenarioName = Inr xs"
    unfolding generateInsights_def Let_def by (simp add: X L V T S D E R)
  then show "\<exists>xs. generateInsights (Some result) scenarioName = Inr xs \<and> length xs \<le> 3"
    using generateInsights_length by blast
next
  fix xs
  assume "generateInsights res scenarioName = Inr xs"
  then show "length xs \<le> 3"
    by (rule generateInsights_length)
qed

lemma risky_result_series:
  "stateSeries risky_result ''X'' = Inr [1 / 10, 9 / 10]"
  "stateSeries risky_result ''L'' = Inr [8 / 10, 3 / 10]"
  "stateSeries risky_result ''V'' = Inr [5 / 10, 2 / 10]"
  "stateSeries risky_result ''T'' = Inr [5 / 10, 7 / 10]"
  "stateSeries risky_result ''S'' = Inr [5 / 10, 5 / 10]"
  "stateSeries risky_result ''D'' = Inr [5 / 10, 5 / 10]"
  "stateSeries risky_result ''E'' = Inr [5 / 10, 5 / 10]"
  "stateSeries risky_result ''R'' = Inr [5 / 10, 1 / 10]"
  by (simp_all add: risky_result_def stateSeries_def)

lemma risky_result_indices:
  "int (length (t risky_result)) - 1 = 1" "int (length (t risky_result) div 2) = 1"
  by (simp_all add: risky_result_def)

lemma risky_result_titles:
  "map_sum id (map ins_title) (generateInsights (Some risky_result) ''baseline'')
     = Inr [''High Incident Risk'', ''Trust Erosion'', ''V&V Investment Gap'']"
  unfolding generateInsights_def Let_def option.case risky_result_series and_then_def
    sum.case risky_result_indices
  by (simp add: js_index_def js_gt_def js_lt_def js_mul_def js_add_def js_div_def push_if_def)

theorem generateInsights_at_most_three_witness:
  "set [''X'', ''L'', ''V'', ''T'', ''S'', ''D'', ''E'', ''R'']
     \<subseteq> fst ` set (result_states risky_result)
   \<and> (\<exists>xs. generateInsights (Some risky_result) ''baseline'' = Inr xs \<and> length xs \<le> 3)
   \<and> map_sum id (map ins_title) (generateInsights (Some risky_result) ''baseline'')
       = Inr [''High Incident Risk'', ''Trust Erosion'', ''V&V Investment Gap'']"
proof -
  have keys: "set [''X'', ''L'', ''V'', ''T'', ''S'', ''D'', ''E'', ''R'']
                \<subseteq> fst ` set (result_states risky_result)"
    by (simp add: risky_result_def)
  note three = generateInsights_at_most_three
                 [of "''baseline''" risky_result None, THEN conjunct2, THEN conjunct1,
                  rule_format, OF keys]
  show ?thesis
    using keys three risky_result_titles by (intro conjI)
qed

text \<open>
  The claim as first stated covers every simulation result. A result without state
  series is a value of the result type, and on it the function throws instead of
  returning a list.
\<close>

theorem generateInsights_missing_series_counterexample:
  "generateInsights (Some empty_result) ''baseline''
     = Inl (TypeError ''Cannot read properties of undefined'')"
  by (simp add: generateInsights_def empty_result_def stateSeries_def and_then_def Let_def)

section \<open>The initial-value bound of the node edit form\<close>

text \<open>
  Claim C7. A save attempt in the node edit form with a blank name, or with an initial
  value below 0 or above 1, is rejected: \<open>onSave\<close> is not called (nor is
  \<open>onClose\<close>), and the form's error list is not empty and holds the message of each
  violated rule. A save attempt with a name that is not blank and an initial value
  between 0 and 1 calls \<open>onSave\<close> once, with the node's id and the entered name,
  description, business meaning, initial value and category, and reports no error.
\<close>

theorem handleSave_enforces_bounds:
  "(trim (name st) = [] \<or> js_lt (initial st) (Some 0) \<or> js_gt (initial st) (Some 1) \<longrightarrow>
      snd (handleSave node_id st) = []
      \<and> errors (fst (handleSave node_id st)) \<noteq> []
      \<and> (trim (name st) = [] \<longrightarrow>
           ''Name is required'' \<in> set (errors (fst (handleSave node_id st))))
      \<and> (js_lt (initial st) (Some 0) \<or> js_gt (initial st) (Some 1) \<longrightarrow>
           ''Initial value must be between 0 and 1''
             \<in> set (errors (fst (handleSave node_id st)))))
   \<and> (trim (name st) \<noteq> [] \<and> (\<exists>x. initial st = Some x \<and> 0 \<le> x \<and> x \<le> 1) \<longrightarrow>
      snd (handleSave node_id st) =
        [OnSave node_id
           \<lparr>label = name st, upd_description = description st,
            business_meaning = businessMeaning st, upd_initial = initial st,
            upd_category = category st\<rparr>
           (targetDeps st, derivativeDeps st),
         OnClose]
      \<and> errors (fst (handleSave node_id st)) = [])"
  by (auto simp: handleSave_def push_if_def js_lt_def js_gt_def Let_def)

theorem handleSave_enforces_bounds_witness:
  "snd (handleSave ''T'' (demo_modal ''Targeting'' (Some (3 / 2)))) = []
   \<and> errors (fst (handleSave ''T'' (demo_modal ''Targeting'' (Some (3 / 2)))))
       = [''Initial value must be between 0 and 1'']
   \<and> snd (handleSave ''T'' (demo_modal ''  '' (Some (1 / 2)))) = []
   \<and> snd (handleSave ''T'' (demo_modal ''Targeting'' (Some (1 / 2)))) =
       [OnSave ''T''
          \<lparr>label = ''Targeting'', upd_description = ''Accuracy of targeting'',
           business_meaning = [], upd_initial = Some (1 / 2), upd_category = ''capability''\<rparr>
          (\<lparr>stocks = [], parameters = []\<rparr>, \<lparr>stocks = [], parameters = []\<rparr>),
        OnClose]"
proof -
  have blank: "trim (name (demo_modal ''  '' (Some (1 / 2)))) = []"
    and named: "trim (name (demo_modal ''Targeting'' i)) \<noteq> []" for i
    by (simp_all add: demo_modal_def trim_def isWhiteSpace_def)
  have high: "js_gt (initial (demo_modal ''Targeting'' (Some (3 / 2)))) (Some 1)"
    by (simp add: demo_modal_def js_gt_def)
  have fine: "\<exists>x. initial (demo_modal ''Targeting'' (Some (1 / 2))) = Some x \<and> 0 \<le> x \<and> x \<le> 1"
    by (rule exI [of _ "1 / 2"]) (simp add: demo_modal_def)
  have e: "errors (fst (handleSave ''T'' (demo_modal ''Targeting'' (Some (3 / 2)))))
             = [''Initial value must be between 0 and 1'']"
    by (simp add: handleSave_def demo_modal_def trim_def isWhiteSpace_def push_if_def
          js_lt_def js_gt_def Let_def)
  note r1 = handleSave_enforces_bounds
              [of "demo_modal ''Targeting'' (Some (3 / 2))" "''T''", THEN conjunct1]
  note r2 = handleSave_enforces_bounds
              [of "demo_modal ''  '' (Some (1 / 2))" "''T''", THEN conjunct1]
  note r3 = handleSave_enforces_bounds
              [of "demo_modal ''Targeting'' (Some (1 / 2))" "''T''", THEN conjunct2]
  have "snd (handleSave ''T'' (demo_modal ''Targeting'' (Some (3 / 2)))) = []"
    using r1 high by blast
  moreover have "snd (handleSave ''T'' (demo_modal ''  '' (Some (1 / 2)))) = []"
    using r2 blank by blast
  moreover have "snd (handleSave ''T'' (demo_modal ''Targeting'' (Some (1 / 2)))) =
       [OnSave ''T''
          \<lparr>label = ''Targeting'', upd_description = ''Accuracy of targeting'',
           business_meaning = [], upd_initial = Some (1 / 2), upd_category = ''capability''\<rparr>
          (\<lparr>stocks = [], parameters = []\<rparr>, \<lparr>stocks = [], parameters = []\<rparr>),
        OnClose]"
    using r3 named [of "Some (1 / 2)"] fine by (simp add: demo_modal_def)
  ultimately show ?thesis
    using e by simp
qed

section \<open>An edit made before a draft exists\<close>

text \<open>
  Claim C8. When a change is produced while the editor has no draft, \<open>addChange\<close>
  starts a draft and returns: the only request it sends is the creation of the draft,
  so the change is sent to no draft; the change is put on no list of the editor (the
  change list is empty once the draft is created and is untouched when the creation
  fails, and the undo stack is untouched); and when the draft is created nothing is
  logged, so the change is lost without a report.
\<close>

theorem addChange_without_draft_drops_change:
  "draft (draftState st) = None \<Longrightarrow>
   api_calls (addChange api change st)
     = api_calls st @ [CreateDraft ''Live model editing session'']
   \<and> undoStack (addChange api change st) = undoStack st
   \<and> redoStack (addChange api change st) = redoStack st
   \<and> (\<forall>d. createDraft api ''Live model editing session'' = Inr d \<longrightarrow>
         draftState (addChange api change st)
           = \<lparr>active = True, draft = Some d, state_changes = []\<rparr>
         \<and> console (addChange api change st) = console st)
   \<and> (\<forall>e. createDraft api ''Live model editing session'' = Inl e \<longrightarrow>
         draftState (addChange api change st) = draftState st
         \<and> console (addChange api change st) = console st @ [''Failed to create draft:''])"
  by (auto simp: addChange_def startDraft_def Let_def split: sum.splits)

theorem addChange_without_draft_drops_change_witness:
  "draft (draftState initial_editor) = None
   \<and> api_calls (addChange accepting_api move_node initial_editor)
       = [CreateDraft ''Live model editing session'']
   \<and> state_changes (draftState (addChange accepting_api move_node initial_editor)) = []
   \<and> undoStack (addChange accepting_api move_node initial_editor) = []
   \<and> console (addChange accepting_api move_node initial_editor) = []"
proof -
  have none: "draft (draftState initial_editor) = None"
    by (simp add: initial_editor_def)
  have created: "createDraft accepting_api ''Live model editing session'' = Inr fresh_draft"
    by (simp add: accepting_api_def)
  note lost = addChange_without_draft_drops_change [OF none, of accepting_api move_node]
  have "draftState (addChange accepting_api move_node initial_editor)
          = \<lparr>active = True, draft = Some fresh_draft, state_changes = []\<rparr>"
    and "console (addChange accepting_api move_node initial_editor) = console initial_editor"
    using lost created by blast+
  then show ?thesis
    using none lost by (simp add: initial_editor_def)
qed

section \<open>The stocks found by the stock pattern\<close>

lemma wordChar_not_bar: "isWordChar c \<Longrightarrow> c \<noteq> CHR ''|''"
  by (auto simp: isWordChar_def)

lemma split_bar_plain: "CHR ''|'' \<notin> set x \<Longrightarrow> split_bar x = [x]"
  by (induction x) auto

lemma split_bar_append:
  "CHR ''|'' \<notin> set x \<Longrightarrow> split_bar (x @ CHR ''|'' # rest) = x # split_bar rest"
  by (induction x) auto

lemma split_bar_join:
  "xs \<noteq> [] \<Longrightarrow> \<forall>x \<in> set xs. CHR ''|'' \<notin> set x \<Longrightarrow> split_bar (join ''|'' xs) = xs"
proof (induction "''|''" xs rule: join.induct)
  case 1
  then show ?case by simp
next
  case (2 x)
  then show ?case by (simp add: split_bar_plain)
next
  case (3 x y ys)
  then show ?case by (simp add: split_bar_append)
qed

lemma branches_words:
  assumes "knownStocks \<noteq> []" "list_all is_word knownStocks"
  shows "branches knownStocks = knownStocks"
proof -
  have "\<forall>x \<in> set knownStocks. CHR ''|'' \<notin> set x"
    using assms(2) wordChar_not_bar
    by (auto simp: list_all_iff is_word_def)
  with assms(1) show ?thesis
    unfolding branches_def by (rule split_bar_join)
qed

lemma startsWithAt_nth:
  assumes "startsWithAt S i w" "k < length w"
  shows "i + k < length S \<and> S ! (i + k) = w ! k"
proof -
  from assms(1) have eq: "take (length w) (drop i S) = w"
    by (simp add: startsWithAt_def)
  then have "length (take (length w) (drop i S)) = length w"
    by (simp only:)
  then have "length w \<le> length (drop i S)"
    by simp
  with assms(2) have lt: "i + k < length S" by simp
  have "w ! k = take (length w) (drop i S) ! k" by (simp add: eq)
  also have "\<dots> = S ! (i + k)" using assms(2) lt by simp
  finally show ?thesis using lt by simp
qed

lemma word_first:
  assumes "is_word w" "startsWithAt S i w"
  shows "wordCharAt S (int i)"
proof -
  from assms(1) have "0 < length w" "isWordChar (w ! 0)"
    by (auto simp: is_word_def list_all_length)
  with startsWithAt_nth [OF assms(2), of 0] show ?thesis
    by (simp add: wordCharAt_def)
qed

lemma word_inside:
  assumes "is_word w" "startsWithAt S i w" "i \<le> j" "j < i + length w"
  shows "wordCharAt S (int j)"
proof -
  from assms(3,4) have k: "j - i < length w" by simp
  with assms(1) have "isWordChar (w ! (j - i))"
    by (simp add: is_word_def list_all_length)
  with startsWithAt_nth [OF assms(2) k] assms(3) show ?thesis
    by (simp add: wordCharAt_def)
qed

lemma word_last:
  assumes "is_word w" "startsWithAt S i w"
  shows "wordCharAt S (int (i + length w) - 1)"
proof -
  from assms(1) have pos: "0 < length w" by (simp add: is_word_def)
  then have "i \<le> i + length w - 1" "i + length w - 1 < i + length w"
    by linarith+
  then have "wordCharAt S (int (i + length w - 1))"
    by (rule word_inside [OF assms])
  moreover have "int (i + length w - 1) = int (i + length w) - 1"
    using pos by linarith
  ultimately show ?thesis by simp
qed

lemma matchStock_token:
  assumes "list_all is_word alts" "matchStock alts S i = Some (e, cs)"
  shows "\<exists>a \<in> set alts. e = i + length a \<and> token_at S i a \<and> substring S i e = a"
proof -
  from assms(2) obtain a where b0: "wordBoundary S i"
    and f: "find (\<lambda>a. startsWithAt S i a \<and> wordBoundary S (i + length a)) alts = Some a"
    and e: "e = i + length a"
    by (auto simp: matchStock_def split: if_splits option.splits)
  from f have a: "a \<in> set alts" and sw: "startsWithAt S i a"
    and b1: "wordBoundary S (i + length a)"
    by (auto simp: find_Some_iff)
  from a assms(1) have w: "is_word a" by (simp add: list_all_iff)
  have "\<not> wordCharAt S (int i - 1)"
    using b0 word_first [OF w sw] by (simp add: wordBoundary_def)
  moreover have "\<not> wordCharAt S (int (i + length a))"
    using b1 word_last [OF w sw] by (simp add: wordBoundary_def)
  ultimately have "token_at S i a"
    using w sw by (simp add: token_at_def)
  moreover have "substring S i e = a"
    using sw by (simp add: substring_def startsWithAt_def e)
  ultimately show ?thesis using a e by blast
qed

lemma token_matchStock:
  assumes "token_at S i a" "a \<in> set alts"
  shows "matchStock alts S i \<noteq> None"
proof -
  from assms(1) have w: "is_word a" and sw: "startsWithAt S i a"
    and l: "\<not> wordCharAt S (int i - 1)" and r: "\<not> wordCharAt S (int (i + length a))"
    by (simp_all add: token_at_def)
  have b0: "wordBoundary S i"
    using l word_first [OF w sw] by (simp add: wordBoundary_def)
  have b1: "wordBoundary S (i + length a)"
    using r word_last [OF w sw] by (simp add: wordBoundary_def)
  have "find (\<lambda>a. startsWithAt S i a \<and> wordBoundary S (i + length a)) alts \<noteq> None"
    using assms(2) sw b1 by (auto simp: find_None_iff)
  with b0 show ?thesis
    by (auto simp: matchStock_def split: option.splits)
qed

lemma token_at_unique:
  assumes "token_at S i a" "token_at S i b"
  shows "a = b"
proof -
  have le: "length x \<le> length y" if x: "token_at S i x" and y: "token_at S i y" for x y
  proof (rule ccontr)
    assume "\<not> length x \<le> length y"
    then have "i \<le> i + length y" "i + length y < i + length x" by simp_all
    with x have "wordCharAt S (int (i + length y))"
      using word_inside [of x S i "i + length y"] by (simp add: token_at_def)
    with y show False by (simp add: token_at_def)
  qed
  from le [OF assms] le [OF assms(2,1)] have len: "length a = length b" by simp
  from assms have A: "take (length a) (drop i S) = a" and B: "take (length b) (drop i S) = b"
    by (simp_all add: token_at_def startsWithAt_def)
  have "a = take (length b) (drop i S)"
    using A by (simp only: len)
  with B show ?thesis by (simp only:)
qed

lemma token_at_inside:
  assumes "token_at S i a" "i < j" "j < i + length a"
  shows "\<not> token_at S j b"
proof -
  from assms have "wordCharAt S (int (j - 1))"
    using word_inside [of a S i "j - 1"] by (simp add: token_at_def)
  moreover have "int (j - 1) = int j - 1" using assms(2) by linarith
  ultimately show ?thesis by (simp add: token_at_def)
qed

lemma token_at_bound: "token_at S i w \<Longrightarrow> i < length S"
  using word_first [of w S i] by (simp add: token_at_def wordCharAt_def)

lemma standalone_token_iff: "standalone_token S w = (\<exists>i. token_at S i w)"
  using token_at_bound by (auto simp: standalone_token_def list_ex_iff)

lemma match_loop_set:
  "list_all is_word alts \<Longrightarrow>
   set (match_loop alts S L A) = set A \<union> {a \<in> set alts. \<exists>i. L \<le> i \<and> token_at S i a}"
proof (induction alts S L A rule: match_loop.induct)
  case (1 alts S L A)
  note words = "1.prems"
  show ?case
  proof (cases "exec_from (matchStock alts) S L")
    case None
    have "\<not> (L \<le> i \<and> token_at S i a)" if a: "a \<in> set alts" for a i
    proof
      assume h: "L \<le> i \<and> token_at S i a"
      then have "i \<le> length S" using token_at_bound [of S i a] by simp
      with None h have "matchStock alts S i = None" by (auto intro: exec_from_None)
      with token_matchStock [of S i a alts] h a show False by simp
    qed
    then have E: "{a \<in> set alts. \<exists>i. L \<le> i \<and> token_at S i a} = {}" by blast
    have M: "match_loop alts S L A = A"
      using None by (simp add: match_loop.simps [of alts S L A])
    show ?thesis unfolding M E by simp
  next
    case (Some r)
    obtain i e cs where r: "r = (i, e, cs)" by (cases r)
    from exec_from_Some [OF Some [unfolded r]]
    have Li: "L \<le> i" and m: "matchStock alts S i = Some (e, cs)"
      and first: "\<And>j. L \<le> j \<Longrightarrow> j < i \<Longrightarrow> matchStock alts S j = None"
      by auto
    from matchStock_token [OF words m] obtain a where a: "a \<in> set alts"
      and e: "e = i + length a" and tok: "token_at S i a" and sub: "substring S i e = a"
      by blast
    from tok have ne: "a \<noteq> []" by (simp add: token_at_def is_word_def)
    have step: "match_loop alts S L A = match_loop alts S e (A @ [a])"
      using Some r sub ne by (simp add: match_loop.simps [of alts S L A])
    have IH: "set (match_loop alts S e (A @ [a]))
                = set (A @ [a]) \<union> {b \<in> set alts. \<exists>j. e \<le> j \<and> token_at S j b}"
      using "1.IH" [OF Some r [symmetric] refl sub [symmetric], unfolded sub] ne words
      by simp
    have "{b \<in> set alts. \<exists>j. L \<le> j \<and> token_at S j b}
            = insert a {b \<in> set alts. \<exists>j. e \<le> j \<and> token_at S j b}"
    proof (intro set_eqI iffI)
      fix b
      assume "b \<in> {b \<in> set alts. \<exists>j. L \<le> j \<and> token_at S j b}"
      then obtain j where b: "b \<in> set alts" and Lj: "L \<le> j" and tj: "token_at S j b"
        by blast
      have "\<not> j < i"
        using first [OF Lj] token_matchStock [OF tj b] by auto
      moreover have "b = a" if "j = i"
        using tj tok that by (auto intro: token_at_unique)
      moreover have "\<not> (i < j \<and> j < e)"
        using token_at_inside [OF tok, of j b] tj e by auto
      ultimately have "b = a \<or> e \<le> j" by force
      with b tj show "b \<in> insert a {b \<in> set alts. \<exists>j. e \<le> j \<and> token_at S j b}"
        by blast
    next
      fix b
      assume "b \<in> insert a {b \<in> set alts. \<exists>j. e \<le> j \<and> token_at S j b}"
      then show "b \<in> {b \<in> set alts. \<exists>j. L \<le> j \<and> token_at S j b}"
        using a tok Li e by (auto intro: exI [of _ i]) (meson le_add1 le_trans)
    qed
    with step IH show ?thesis by auto
  qed
qed

lemma set_foldl_set_add: "set (foldl set_add acc xs) = set acc \<union> set xs"
  by (induction xs arbitrary: acc) (auto simp: set_add_def)

lemma set_new_Set [simp]: "set (new_Set xs) = set xs"
  by (simp add: new_Set_def set_foldl_set_add)

lemma distinct_foldl_set_add: "distinct acc \<Longrightarrow> distinct (foldl set_add acc xs)"
  by (induction xs arbitrary: acc) (auto simp: set_add_def)

lemma set_join: "set (join sep xs) \<subseteq> set sep \<union> \<Union> (set ` set xs)"
  by (induction sep xs rule: join.induct) auto

lemma wordChar_not_syntax: "isWordChar c \<Longrightarrow> \<not> isSyntaxChar c"
  by (auto simp: isWordChar_def isSyntaxChar_def)

lemma plain_words:
  assumes "list_all is_word knownStocks"
  shows "plain (join ''|'' knownStocks)"
proof -
  have "\<not> isSyntaxChar c" if "c \<in> set (join ''|'' knownStocks)" for c
  proof -
    from that set_join [of "''|''" knownStocks]
    have "c = CHR ''|'' \<or> (\<exists>w \<in> set knownStocks. c \<in> set w)" by auto
    then show ?thesis
    proof
      assume "c = CHR ''|''"
      then show ?thesis by (simp add: isSyntaxChar_def)
    next
      assume "\<exists>w \<in> set knownStocks. c \<in> set w"
      then have "isWordChar c"
        using assms by (auto simp: list_all_iff is_word_def)
      then show ?thesis by (rule wordChar_not_syntax)
    qed
  qed
  then show ?thesis by (simp add: plain_def list_all_iff)
qed

lemma dependencies_plain:
  assumes "plain (join ''|'' knownStocks)"
  shows "\<exists>d. dependencies engine expr knownStocks knownParameters = Inr d
             \<and> set (stocks d) = set (match_loop (branches knownStocks) expr 0 [])
             \<and> set (parameters d) = set (exec_loop expr 0 [])"
  using assms
  by (simp add: dependencies_def stock_matches_def branches_def string_match_def Let_def)

lemma stocks_are_tokens:
  assumes "knownStocks \<noteq> []" "list_all is_word knownStocks"
  shows "\<exists>d. dependencies engine expr knownStocks knownParameters = Inr d
             \<and> set (stocks d) = {s \<in> set knownStocks. standalone_token expr s}"
  using match_loop_set [OF assms(2), of expr 0 "[]"]
    dependencies_plain [OF plain_words [OF assms(2)], of engine expr knownParameters]
  by (auto simp: branches_words [OF assms] standalone_token_iff)

section \<open>The names found by the parameter pattern\<close>

lemma bracket_at_iff:
  "bracket_at S i n =
     (n \<noteq> [] \<and> (\<forall>c \<in> set n. \<not> isQuote c)
      \<and> (\<exists>q q'. isQuote q \<and> isQuote q' \<and> startsWithAt S i (''p['' @ [q] @ n @ [q'] @ '']'')))"
  unfolding bracket_at_def reference_at_def mixed_at_def lookup_at_def list_all_iff isQuote_def
  by blast

lemma bracket_at_chars:
  assumes "bracket_at S i n"
  shows "S ! i = CHR ''p''" "S ! (i + 1) = CHR ''[''" "isQuote (S ! (i + 2))"
    "\<And>k. k < length n \<Longrightarrow> S ! (i + 3 + k) = n ! k"
    "isQuote (S ! (i + 3 + length n))" "S ! (i + 4 + length n) = CHR '']''"
    "i + length n + 5 \<le> length S"
proof -
  from assms obtain q q' where q: "isQuote q" "isQuote q'"
    and sw: "startsWithAt S i (''p['' @ [q] @ n @ [q'] @ '']'')"
    by (auto simp: bracket_at_iff)
  let ?w = "''p['' @ [q] @ n @ [q'] @ '']''"
  have len: "length ?w = length n + 5" by simp
  note nth = startsWithAt_nth [OF sw]
  show "S ! i = CHR ''p''" using nth [of 0] by simp
  show "S ! (i + 1) = CHR ''[''" using nth [of 1] by simp
  show "isQuote (S ! (i + 2))" using nth [of 2] q by simp
  show "S ! (i + 3 + k) = n ! k" if "k < length n" for k
    using nth [of "3 + k"] that by (simp add: nth_append add.assoc)
  show "isQuote (S ! (i + 3 + length n))"
    using nth [of "3 + length n"] q by (simp add: nth_append add.assoc)
  show "S ! (i + 4 + length n) = CHR '']''"
    using nth [of "4 + length n"] by (simp add: nth_append add.assoc)
  show "i + length n + 5 \<le> length S"
    using nth [of "4 + length n"] by simp
qed

lemma bracket_at_bound: "bracket_at S i n \<Longrightarrow> i < length S"
  using bracket_at_chars(7) [of S i n] by simp

lemma matchParam_reference:
  assumes "matchParam S i = Some (e, cs)"
  shows "\<exists>n. cs = [n] \<and> e = i + length n + 5 \<and> bracket_at S i n"
proof -
  from assms obtain q rest q2 after where d: "drop i S = CHR ''p'' # CHR ''['' # q # rest"
    and q: "isQuote q"
    and ne: "takeWhile (\<lambda>c. \<not> isQuote c) rest \<noteq> []"
    and r: "drop (length (takeWhile (\<lambda>c. \<not> isQuote c) rest)) rest = q2 # CHR '']'' # after"
    and q2: "isQuote q2"
    and e: "e = i + length (takeWhile (\<lambda>c. \<not> isQuote c) rest) + 5"
    and cs: "cs = [takeWhile (\<lambda>c. \<not> isQuote c) rest]"
    by (auto simp: matchParam_def Let_def split: list.splits if_splits)
  let ?n = "takeWhile (\<lambda>c. \<not> isQuote c) rest"
  have "rest = take (length ?n) rest @ drop (length ?n) rest" by simp
  also have "take (length ?n) rest = ?n" by (simp add: takeWhile_eq_take [symmetric])
  finally have rest: "rest = ?n @ q2 # CHR '']'' # after" using r by simp
  have "drop i S = (''p['' @ [q] @ ?n @ [q2] @ '']'') @ after"
    using d rest by simp
  then have "startsWithAt S i (''p['' @ [q] @ ?n @ [q2] @ '']'')"
    unfolding startsWithAt_def by (simp only: take_append length_append) simp
  moreover have "\<forall>c \<in> set ?n. \<not> isQuote c"
    by (auto dest: set_takeWhileD)
  ultimately have "bracket_at S i ?n"
    using ne q q2 unfolding bracket_at_iff by blast
  with e cs show ?thesis by blast
qed

lemma reference_matchParam:
  assumes "bracket_at S i n"
  shows "matchParam S i = Some (i + length n + 5, [n])"
proof -
  from assms obtain q q' where ne: "n \<noteq> []" and nq: "\<forall>c \<in> set n. \<not> isQuote c"
    and q: "isQuote q" "isQuote q'"
    and sw: "startsWithAt S i (''p['' @ [q] @ n @ [q'] @ '']'')"
    by (auto simp: bracket_at_iff)
  let ?w = "''p['' @ [q] @ n @ [q'] @ '']''"
  define after where "after = drop (length ?w) (drop i S)"
  have "drop i S = take (length ?w) (drop i S) @ after"
    unfolding after_def by (simp only: append_take_drop_id)
  also have "take (length ?w) (drop i S) = ?w"
    using sw by (simp only: startsWithAt_def)
  finally have d: "drop i S = CHR ''p'' # CHR ''['' # q # (n @ q' # CHR '']'' # after)"
    by simp
  have tw: "takeWhile (\<lambda>c. \<not> isQuote c) (n @ q' # CHR '']'' # after) = n"
    using nq q(2) by (simp add: takeWhile_append2)
  show ?thesis
    unfolding matchParam_def d list.case
    using ne q by (simp add: tw Let_def)
qed

lemma reference_overlap:
  assumes m: "bracket_at S i m" and n: "bracket_at S j n"
    and ij: "i < j" "j < i + length m + 5"
  shows "hd n = CHR '']''"
proof -
  note M = bracket_at_chars [OF m]
  note N = bracket_at_chars [OF n]
  from n m have nne: "n \<noteq> []" and mq: "\<And>k. k < length m \<Longrightarrow> \<not> isQuote (m ! k)"
    by (auto simp: bracket_at_iff)
  define d where "d = j - i"
  have j: "j = i + d" and d: "0 < d" "d < length m + 5"
    using ij by (simp_all add: d_def)
  have notp: "\<not> isQuote (CHR ''p'')" "\<not> isQuote (CHR ''['')"
    "CHR ''['' \<noteq> CHR ''p''" "CHR '']'' \<noteq> CHR ''p''"
    by (simp_all add: isQuote_def)
  have d3: "3 \<le> d"
  proof (rule ccontr)
    assume "\<not> 3 \<le> d"
    with d have "d = 1 \<or> d = 2" by arith
    then have "j = i + 1 \<or> j = i + 2" using j by arith
    then show False
      using N(1) M(2,3) notp by metis
  qed
  have d_name: "d < length m + 3"
  proof (rule ccontr)
    assume "\<not> d < length m + 3"
    with d have "d = length m + 3 \<or> d = length m + 4" by arith
    then have "j = i + 3 + length m \<or> j = i + 4 + length m" using j by arith
    then show False
      using N(1) M(5,6) notp by metis
  qed
  have at: "S ! (i + 3 + k) = m ! k \<and> \<not> isQuote (m ! k)" if "k < length m" for k
    using M(4) [OF that] mq [OF that] by simp
  have d1: "d + 1 < length m + 3"
  proof (rule ccontr)
    assume "\<not> d + 1 < length m + 3"
    with d_name have "d + 1 = length m + 3" by arith
    then have "j + 1 = i + 3 + length m" using j by arith
    with N(2) M(5) notp show False by metis
  qed
  have d2: "d + 2 = length m + 3"
  proof (rule ccontr)
    assume neq: "d + 2 \<noteq> length m + 3"
    with d1 d3 have k: "d + 2 - 3 < length m" by arith
    have "i + 3 + (d + 2 - 3) = j + 2" using d3 j by arith
    with at [OF k] N(3) show False by metis
  qed
  have "i + 4 + length m = j + 3" using d2 j by arith
  with M(6) have "S ! (j + 3) = CHR '']''" by metis
  moreover have "S ! (j + 3 + 0) = n ! 0"
    using nne by (intro N(4)) simp
  then have "S ! (j + 3) = n ! 0" by (simp only: add_0_right)
  ultimately have "n ! 0 = CHR '']''" by (simp only:)
  then show ?thesis
    using nne by (simp add: hd_conv_nth)
qed


lemma reference_is_bracket: "reference_at S i n \<Longrightarrow> bracket_at S i n"
  by (simp add: bracket_at_def)

lemma bracket_at_name:
  assumes "bracket_at S i n"
  shows "take (length n) (drop (i + 3) S) = n"
proof (rule nth_equalityI)
  note B = bracket_at_chars [OF assms]
  show "length (take (length n) (drop (i + 3) S)) = length n"
    using B(7) by simp
  fix k
  assume "k < length (take (length n) (drop (i + 3) S))"
  then have k: "k < length n" by simp
  have "take (length n) (drop (i + 3) S) ! k = S ! (i + 3 + k)"
    using k B(7) by simp
  then show "take (length n) (drop (i + 3) S) ! k = n ! k"
    using B(4) [OF k] by simp
qed

lemma mixed_at_has_mixed_quotes:
  assumes "mixed_at S i n"
  shows "has_mixed_quotes S"
proof -
  from assms have b: "bracket_at S i n" by (simp add: bracket_at_def)
  from b have ne: "n \<noteq> []" by (simp add: bracket_at_iff)
  note B = bracket_at_chars [OF b]
  have i: "i \<in> set [0 ..< length S]" using B(7) by simp
  have k: "length n \<in> set [1 ..< length S]" using B(7) ne by (simp add: Suc_le_eq)
  have "mixed_at S i (take (length n) (drop (i + 3) S))"
    using assms by (simp only: bracket_at_name [OF b])
  with i k show ?thesis
    unfolding has_mixed_quotes_def list_ex_iff by blast
qed

lemma bracket_not_mixed:
  "\<not> has_mixed_quotes S \<Longrightarrow> bracket_at S i n \<Longrightarrow> reference_at S i n"
  using mixed_at_has_mixed_quotes [of S i n] by (auto simp: bracket_at_def)

lemma startsWithAt_subset: "startsWithAt S i w \<Longrightarrow> set w \<subseteq> set S"
proof -
  assume "startsWithAt S i w"
  then have "w = take (length w) (drop i S)" by (simp add: startsWithAt_def)
  then have "set w \<subseteq> set (drop i S)" by (metis set_take_subset)
  then show ?thesis using set_drop_subset [of i S] by blast
qed

lemma single_quoted_only:
  assumes "CHR 0x22 \<notin> set S"
  shows "\<not> has_mixed_quotes S"
proof
  assume "has_mixed_quotes S"
  then obtain i n where "mixed_at S i n"
    unfolding has_mixed_quotes_def list_ex_iff by blast
  then obtain q q' where sw: "startsWithAt S i (''p['' @ [q] @ n @ [q'] @ '']'')"
    and q: "q = CHR 0x22 \<or> q' = CHR 0x22"
    unfolding mixed_at_def lookup_at_def by blast
  from q have "CHR 0x22 \<in> set (''p['' @ [q] @ n @ [q'] @ '']'')" by auto
  with startsWithAt_subset [OF sw] assms show False by blast
qed
lemma exec_loop_step:
  assumes "exec_from matchParam S L = Some (i, e, cs)"
  shows "\<exists>n. exec_loop S L ps = exec_loop S (i + length n + 5) (ps @ [n])
             \<and> e = i + length n + 5 \<and> bracket_at S i n"
proof -
  from exec_from_Some [OF assms] have "matchParam S i = Some (e, cs)" by simp
  from matchParam_reference [OF this] obtain n where n: "cs = [n]" "e = i + length n + 5"
    "bracket_at S i n" by blast
  then show ?thesis
    using assms by (auto simp: exec_loop.simps [of S L ps])
qed

lemma exec_loop_sound:
  "set (exec_loop S L ps) \<subseteq> set ps \<union> {n. \<exists>i. L \<le> i \<and> bracket_at S i n}"
proof (induction S L ps rule: exec_loop.induct)
  case (1 S L ps)
  show ?case
  proof (cases "exec_from matchParam S L")
    case None
    then show ?thesis by (simp add: exec_loop.simps [of S L ps])
  next
    case (Some r)
    obtain i e cs where r: "r = (i, e, cs)" by (cases r)
    from exec_from_Some [OF Some [unfolded r]] have Li: "L \<le> i" by simp
    from exec_loop_step [OF Some [unfolded r], of ps] obtain n
      where step: "exec_loop S L ps = exec_loop S e (ps @ [n])"
        and e: "e = i + length n + 5" and ref: "bracket_at S i n"
      by auto
    have cs: "cs ! 0 = n"
      using exec_from_Some [OF Some [unfolded r]] matchParam_reference [of S i e cs]
        reference_matchParam [OF ref] by auto
    have "set (exec_loop S e (ps @ [n]))
            \<subseteq> set (ps @ [n]) \<union> {n. \<exists>i. e \<le> i \<and> bracket_at S i n}"
      using "1.IH" [OF Some r [symmetric] refl] cs by simp
    moreover have "{n. \<exists>j. e \<le> j \<and> bracket_at S j n} \<subseteq> {n. \<exists>j. L \<le> j \<and> bracket_at S j n}"
      using Li e by auto (meson le_add1 le_trans)
    ultimately show ?thesis
      using step ref Li by auto
  qed
qed

lemma exec_loop_keeps: "set ps \<subseteq> set (exec_loop S L ps)"
proof (induction S L ps rule: exec_loop.induct)
  case (1 S L ps)
  show ?case
  proof (cases "exec_from matchParam S L")
    case None
    then show ?thesis by (simp add: exec_loop.simps [of S L ps])
  next
    case (Some r)
    obtain i e cs where r: "r = (i, e, cs)" by (cases r)
    have "set (ps @ [cs ! 0]) \<subseteq> set (exec_loop S e (ps @ [cs ! 0]))"
      using "1.IH" [OF Some r [symmetric] refl] .
    then show ?thesis
      using Some r by (simp add: exec_loop.simps [of S L ps])
  qed
qed

lemma exec_loop_complete:
  "L \<le> j \<Longrightarrow> bracket_at S j n \<Longrightarrow> hd n \<noteq> CHR '']'' \<Longrightarrow> n \<in> set (exec_loop S L ps)"
proof (induction S L ps rule: exec_loop.induct)
  case (1 S L ps)
  note Lj = "1.prems"(1) and ref = "1.prems"(2) and hd = "1.prems"(3)
  show ?case
  proof (cases "exec_from matchParam S L")
    case None
    have "j \<le> length S" using bracket_at_bound [OF ref] by simp
    from exec_from_None [OF None Lj this] reference_matchParam [OF ref]
    show ?thesis by simp
  next
    case (Some r)
    obtain i e cs where r: "r = (i, e, cs)" by (cases r)
    from exec_from_Some [OF Some [unfolded r]]
    have first: "\<And>k. L \<le> k \<Longrightarrow> k < i \<Longrightarrow> matchParam S k = None"
      and here: "matchParam S i = Some (e, cs)"
      by auto
    from exec_loop_step [OF Some [unfolded r], of ps] obtain m
      where step: "exec_loop S L ps = exec_loop S e (ps @ [m])"
        and e: "e = i + length m + 5" and refm: "bracket_at S i m"
      by auto
    have cs: "cs ! 0 = m"
      using here reference_matchParam [OF refm] by auto
    have "\<not> j < i"
      using first [OF Lj] reference_matchParam [OF ref] by auto
    moreover have "\<not> (i < j \<and> j < e)"
      using reference_overlap [OF refm ref] hd e by auto
    ultimately consider "j = i" | "e \<le> j" by force
    then show ?thesis
    proof cases
      case 1
      with ref refm have "n = m"
        using reference_matchParam [of S i n] reference_matchParam [of S i m] by auto
      then show ?thesis
        using exec_loop_keeps [of "ps @ [m]" S e] step by auto
    next
      case 2
      from "1.IH" [OF Some r [symmetric] refl 2 ref hd] show ?thesis
        using step cs by simp
    qed
  qed
qed

lemma parameters_dependencies:
  "dependencies engine expr knownStocks knownParameters = Inr d \<Longrightarrow>
   set (parameters d) = set (exec_loop expr 0 [])"
  by (auto simp: dependencies_def Let_def split: sum.splits option.splits)

lemma parameters_brackets:
  "dependencies engine expr knownStocks knownParameters = Inr d \<Longrightarrow>
   n \<in> set (parameters d) \<Longrightarrow> \<exists>i. bracket_at expr i n"
  using exec_loop_sound [of expr 0 "[]"]
  by (auto simp: parameters_dependencies)

lemma referenced_parameter_iff: "referenced_parameter S n = (\<exists>i. reference_at S i n)"
proof
  assume "referenced_parameter S n"
  then show "\<exists>i. reference_at S i n"
    unfolding referenced_parameter_def list_ex_iff by blast
next
  assume "\<exists>i. reference_at S i n"
  then obtain i where i: "reference_at S i n" by blast
  then have "i \<in> set [0 ..< length S]"
    using bracket_at_bound [OF reference_is_bracket] by simp
  with i show "referenced_parameter S n"
    unfolding referenced_parameter_def list_ex_iff by blast
qed

lemma parameters_sound:
  assumes "dependencies engine expr knownStocks knownParameters = Inr d"
    and "\<not> has_mixed_quotes expr" and "n \<in> set (parameters d)"
  shows "referenced_parameter expr n"
proof -
  from parameters_brackets [OF assms(1,3)] obtain i where "bracket_at expr i n" by blast
  then have "reference_at expr i n" using assms(2) by (rule bracket_not_mixed [rotated])
  then show ?thesis unfolding referenced_parameter_iff by blast
qed

lemma parameters_complete:
  "dependencies engine expr knownStocks knownParameters = Inr d \<Longrightarrow>
   referenced_parameter expr n \<Longrightarrow> hd n \<noteq> CHR '']'' \<Longrightarrow> n \<in> set (parameters d)"
  using exec_loop_complete [of 0 _ expr n "[]"] reference_is_bracket [of expr _ n]
  by (auto simp: parameters_dependencies referenced_parameter_iff)
section \<open>The dependencies of an expression\<close>

text \<open>
  Claim C1, as amended. For every expression text and every list of known state
  symbols that is not empty and holds words only (letters, digits and the underscore),
  the extraction returns dependencies whose stocks are, as a set, exactly the known
  symbols that stand in the text as tokens. Every name that is referenced in the text
  in the form \<open>p['name']\<close> or \<open>p["name"]\<close> and does not begin with \<open>]\<close> is
  extracted, whether or not it is the name of a known parameter; and in a text that
  has no lookup with mixed quotes every extracted parameter name is referenced in the
  text in one of these two forms.
\<close>

theorem dependencies_exact:
  assumes "knownStocks \<noteq> []" "list_all is_word knownStocks"
  shows "\<exists>d. dependencies engine expr knownStocks knownParameters = Inr d
           \<and> set (stocks d) = {s \<in> set knownStocks. standalone_token expr s}
           \<and> {n. referenced_parameter expr n \<and> hd n \<noteq> CHR '']''} \<subseteq> set (parameters d)
           \<and> (\<not> has_mixed_quotes expr \<longrightarrow>
                set (parameters d) \<subseteq> {n. referenced_parameter expr n})"
proof -
  from stocks_are_tokens [OF assms, of engine expr knownParameters]
  obtain d where d: "dependencies engine expr knownStocks knownParameters = Inr d"
    and st: "set (stocks d) = {s \<in> set knownStocks. standalone_token expr s}"
    by blast
  have "\<not> has_mixed_quotes expr \<longrightarrow> set (parameters d) \<subseteq> {n. referenced_parameter expr n}"
    using parameters_sound [OF d] by blast
  moreover have "{n. referenced_parameter expr n \<and> hd n \<noteq> CHR '']''} \<subseteq> set (parameters d)"
    using parameters_complete [OF d] by blast
  ultimately show ?thesis
    using d st by blast
qed

lemma target_equation_single_quoted: "\<not> has_mixed_quotes target_equation"
  by (rule single_quoted_only) (simp add: target_equation_def)

lemma target_equation_dependencies:
  "dependencies refusing_engine target_equation [''T'', ''S'', ''R''] known_parameters
     = Inr \<lparr>stocks = [''S'', ''R''], parameters = [''surveillance_to_targeting'']\<rparr>"
  by code_simp

theorem dependencies_exact_witness:
  "[''T'', ''S'', ''R''] \<noteq> [] \<and> list_all is_word [''T'', ''S'', ''R'']
   \<and> \<not> has_mixed_quotes target_equation
   \<and> dependencies refusing_engine target_equation [''T'', ''S'', ''R''] known_parameters
       = Inr \<lparr>stocks = [''S'', ''R''], parameters = [''surveillance_to_targeting'']\<rparr>
   \<and> {s \<in> set [''T'', ''S'', ''R'']. standalone_token target_equation s} = {''S'', ''R''}
   \<and> referenced_parameter target_equation ''surveillance_to_targeting''"
proof -
  have ne: "[''T'', ''S'', ''R''] \<noteq> []" by simp
  have words: "list_all is_word [''T'', ''S'', ''R'']" by code_simp
  note plain = target_equation_single_quoted
  note run = target_equation_dependencies
  from dependencies_exact [OF ne words, of refusing_engine target_equation known_parameters]
  obtain d
    where d: "dependencies refusing_engine target_equation [''T'', ''S'', ''R''] known_parameters
                = Inr d"
      and st: "set (stocks d)
                = {s \<in> set [''T'', ''S'', ''R'']. standalone_token target_equation s}"
      and pa: "\<not> has_mixed_quotes target_equation \<longrightarrow>
               set (parameters d) \<subseteq> {n. referenced_parameter target_equation n}"
    by blast
  from d run have "d = \<lparr>stocks = [''S'', ''R''], parameters = [''surveillance_to_targeting'']\<rparr>"
    by simp
  then have sd: "stocks d = [''S'', ''R'']" "parameters d = [''surveillance_to_targeting'']"
    by simp_all
  have tokens: "{s \<in> set [''T'', ''S'', ''R'']. standalone_token target_equation s}
                  = {''S'', ''R''}"
    using st [unfolded sd, symmetric] by (simp only: list.set)
  have ref: "referenced_parameter target_equation ''surveillance_to_targeting''"
    using pa [unfolded sd] plain by simp
  show ?thesis
    using ne words plain run tokens ref by (intro conjI)
qed

text \<open>
  The claim as first stated fails in both of the cases that it names. With no known
  stock the pattern is \<open>\b()\b\<close>, which matches the empty text at every word
  boundary, and the empty symbol is reported as a stock. A name that is not a known
  parameter is reported as a parameter.
\<close>

theorem dependencies_exact_counterexample:
  "dependencies refusing_engine ''x'' [] [] = Inr \<lparr>stocks = [[]], parameters = []\<rparr>
   \<and> \<not> standalone_token ''x'' []
   \<and> dependencies refusing_engine unknown_reference [''T''] known_parameters
       = Inr \<lparr>stocks = [], parameters = [''kX'']\<rparr>
   \<and> ''kX'' \<notin> set (map fst known_parameters)"
proof -
  have "dependencies refusing_engine ''x'' [] [] = Inr \<lparr>stocks = [[]], parameters = []\<rparr>"
    by code_simp
  moreover have "\<not> standalone_token ''x'' []"
    by (simp add: standalone_token_def token_at_def is_word_def)
  moreover have "dependencies refusing_engine unknown_reference [''T''] known_parameters
                   = Inr \<lparr>stocks = [], parameters = [''kX'']\<rparr>"
    by code_simp
  ultimately show ?thesis
    by (simp add: known_parameters_def)
qed

section \<open>Parameter references\<close>

lemma dependencies_ignores_parameters:
  "dependencies engine expr knownStocks knownParameters
     = dependencies engine expr knownStocks other"
  by (simp add: dependencies_def)

text \<open>
  Claim C2, as amended. In a text that has no lookup with mixed quotes, every
  parameter name that the extraction records is written in the text as a bracketed
  lookup, \<open>p['name']\<close> or \<open>p["name"]\<close>. The known parameters are not consulted:
  the result is the same for every set of known parameters, and a name referenced in
  one of these two forms that does not begin with \<open>]\<close> is recorded also when it is
  not the name of a known parameter.
\<close>

theorem recorded_parameters_are_references:
  "(\<forall>d. dependencies engine expr knownStocks knownParameters = Inr d \<longrightarrow>
      (\<not> has_mixed_quotes expr \<longrightarrow> (\<forall>n \<in> set (parameters d). referenced_parameter expr n))
      \<and> (referenced_parameter expr n \<and> hd n \<noteq> CHR '']'' \<longrightarrow> n \<in> set (parameters d)))
   \<and> dependencies engine expr knownStocks knownParameters
       = dependencies engine expr knownStocks other"
  using parameters_sound parameters_complete dependencies_ignores_parameters
  by blast

theorem recorded_parameters_are_references_witness:
  "\<not> has_mixed_quotes target_equation
   \<and> dependencies refusing_engine target_equation [''T'', ''S'', ''R''] known_parameters
     = Inr \<lparr>stocks = [''S'', ''R''], parameters = [''surveillance_to_targeting'']\<rparr>
   \<and> referenced_parameter target_equation ''surveillance_to_targeting''
   \<and> dependencies refusing_engine target_equation [''T'', ''S'', ''R''] known_parameters
       = dependencies refusing_engine target_equation [''T'', ''S'', ''R''] []"
proof -
  note plain = target_equation_single_quoted
  note run = target_equation_dependencies
  note refs = recorded_parameters_are_references
                [of refusing_engine target_equation "[''T'', ''S'', ''R'']" known_parameters
                    "''surveillance_to_targeting''" "[]"]
  have "referenced_parameter target_equation ''surveillance_to_targeting''"
    using refs [THEN conjunct1, rule_format, OF run, THEN conjunct1, rule_format, OF plain]
    by simp
  then show ?thesis
    using plain run refs [THEN conjunct2] by (intro conjI)
qed

text \<open>
  The claim as first stated requires a recorded name to be a known parameter. The name
  \<open>kX\<close> is recorded although the only known parameter is \<open>kT\<close>.
\<close>

theorem recorded_parameters_are_references_counterexample:
  "dependencies refusing_engine unknown_reference [''T''] []
     = Inr \<lparr>stocks = [], parameters = [''kX'']\<rparr>
   \<and> dependencies refusing_engine unknown_reference [''T''] known_parameters
       = Inr \<lparr>stocks = [], parameters = [''kX'']\<rparr>
   \<and> ''kX'' \<notin> set (map fst known_parameters)"
proof -
  have "dependencies refusing_engine unknown_reference [''T''] []
          = Inr \<lparr>stocks = [], parameters = [''kX'']\<rparr>"
    by code_simp
  moreover have "dependencies refusing_engine unknown_reference [''T''] known_parameters
          = Inr \<lparr>stocks = [], parameters = [''kX'']\<rparr>"
    by code_simp
  ultimately show ?thesis
    by (simp add: known_parameters_def)
qed

text \<open>
  The pattern takes the opening and the closing quote independently, so a lookup with
  mixed quotes is recorded too: in \<open>p['a"]\<close> the name \<open>a\<close> is recorded although
  it is referenced in neither of the two forms.
\<close>

lemma mixed_quotes_recorded:
  "has_mixed_quotes mixed_reference
   \<and> \<not> referenced_parameter mixed_reference ''a''
   \<and> dependencies refusing_engine mixed_reference [''T''] known_parameters
       = Inr \<lparr>stocks = [], parameters = [''a'']\<rparr>"
proof -
  have "has_mixed_quotes mixed_reference" by code_simp
  moreover have "\<not> referenced_parameter mixed_reference ''a''" by code_simp
  moreover have "dependencies refusing_engine mixed_reference [''T''] known_parameters
                   = Inr \<lparr>stocks = [], parameters = [''a'']\<rparr>"
    by code_simp
  ultimately show ?thesis by (intro conjI)
qed

section \<open>The extraction on the store\<close>

lemma lastIndex_of_nth:
  "rx < length h \<Longrightarrow> h ! rx = RegExp_lastIndex li \<Longrightarrow> lastIndex_of h rx = Inr li"
  by (simp add: lastIndex_of_def heap_get_def)

lemma array_of_nth:
  "a < length h \<Longrightarrow> h ! a = StringArray xs \<Longrightarrow> array_of h a = Inr xs"
  by (simp add: array_of_def heap_get_def)

lemma deps_of_nth:
  "d < length h \<Longrightarrow> h ! d = Deps_object s p \<Longrightarrow> deps_of h d = Inr (s, p)"
  by (simp add: deps_of_def heap_get_def)

lemma match_loop_h_refines:
  assumes "rx < length h" "h ! rx = RegExp_lastIndex li" "A < length h" "h ! A = StringArray xs"
  shows "\<exists>h'. match_loop_h alts S rx A h = Inr h' \<and> length h \<le> length h'
           \<and> h' ! A = StringArray (match_loop alts S li xs)
           \<and> (\<forall>a < length h. a \<noteq> rx \<longrightarrow> a \<noteq> A \<longrightarrow> h' ! a = h ! a)"
  using assms
proof (induction alts S li xs arbitrary: h rule: match_loop.induct)
  case (1 alts S lastIndex xs)
  note rx = "1.prems"(1) and hrx = "1.prems"(2) and A = "1.prems"(3) and hA = "1.prems"(4)
  have ne: "A \<noteq> rx" using hrx hA by auto
  have li: "lastIndex_of h rx = Inr lastIndex" using rx hrx by (rule lastIndex_of_nth)
  show ?case
  proof (cases "exec_from (matchStock alts) S lastIndex")
    case None
    have run: "match_loop_h alts S rx A h = Inr (h[rx := RegExp_lastIndex 0])"
      by (subst match_loop_h.simps) (simp add: RegExp_exec_def li None)
    have pure: "match_loop alts S lastIndex xs = xs"
      by (simp add: match_loop.simps [of alts S lastIndex xs] None)
    show ?thesis
      unfolding run pure using ne hA by simp
  next
    case (Some r)
    obtain i e cs where r: "r = (i, e, cs)" by (cases r)
    define matchStr where "matchStr = substring S i e"
    define h1 where "h1 = h[rx := RegExp_lastIndex e] @ [StringArray (matchStr # cs)]"
    define h2 where "h2 = h1[A := StringArray (xs @ [matchStr])]"
    define L where "L = (if matchStr = [] then e + 1 else e)"
    define h3 where "h3 = h2[rx := RegExp_lastIndex L]"
    have ex: "RegExp_exec (matchStock alts) rx S h = Inr (Some (length h), h1)"
      by (simp add: RegExp_exec_def li Some r heap_alloc_def h1_def matchStr_def)
    have arr: "array_of h1 (length h) = Inr (matchStr # cs)"
      by (simp add: array_of_def heap_get_def h1_def nth_append)
    have h1A: "array_of h1 A = Inr xs"
      using A hA ne by (simp add: array_of_def heap_get_def h1_def nth_append)
    have push: "array_push A matchStr h1 = Inr h2"
      by (simp add: array_push_def h1A h2_def)
    have h2rx: "rx < length h2" "h2 ! rx = RegExp_lastIndex e"
      using rx ne by (simp_all add: h2_def h1_def nth_append)
    have li2: "lastIndex_of h2 rx = Inr e"
      using h2rx by (rule lastIndex_of_nth)
    have same: "matchStr \<noteq> [] \<Longrightarrow> h3 = h2"
      using h2rx by (simp add: h3_def L_def list_update_same_conv)
    have step: "match_loop_h alts S rx A h = match_loop_h alts S rx A h3"
    proof (cases "matchStr = []")
      case True
      have push': "array_push A [] h1 = Inr h2" using push True by simp
      have arr': "array_of h1 (length h) = Inr ([] # cs)" using arr True by simp
      show ?thesis
        by (subst match_loop_h.simps) (simp add: ex arr' push' li2 h3_def L_def True)
    next
      case False
      then show ?thesis
        by (subst match_loop_h.simps) (simp add: ex arr push same)
    qed
    have pure: "match_loop alts S lastIndex xs = match_loop alts S L (xs @ [matchStr])"
      by (simp add: match_loop.simps [of alts S lastIndex xs] Some r Let_def L_def matchStr_def)
    have len3: "length h3 = Suc (length h)"
      by (simp add: h3_def h2_def h1_def)
    have p1: "rx < length h3" using rx by (simp add: len3)
    have p2: "h3 ! rx = RegExp_lastIndex L"
      using rx by (simp add: h3_def h2_def h1_def)
    have p3: "A < length h3" using A by (simp add: len3)
    have p4: "h3 ! A = StringArray (xs @ [matchStr])"
      using A ne by (simp add: h3_def h2_def h1_def)
    from "1.IH" [OF Some r [symmetric] refl refl, of h3]
         p1 p2 p3 p4
    obtain h' where run: "match_loop_h alts S rx A h3 = Inr h'"
      and len: "length h3 \<le> length h'"
      and res: "h' ! A = StringArray (match_loop alts S L (xs @ [matchStr]))"
      and frame: "\<forall>a < length h3. a \<noteq> rx \<longrightarrow> a \<noteq> A \<longrightarrow> h' ! a = h3 ! a"
      unfolding L_def matchStr_def by blast
    have old: "h3 ! a = h ! a" if "a < length h" "a \<noteq> rx" "a \<noteq> A" for a
      using that by (simp add: h3_def h2_def h1_def nth_append)
    have "\<forall>a < length h. a \<noteq> rx \<longrightarrow> a \<noteq> A \<longrightarrow> h' ! a = h ! a"
      using frame old len3 by simp
    moreover have "length h \<le> length h'" using len len3 by simp
    ultimately show ?thesis
      unfolding step pure using run res by blast
  qed
qed

lemma exec_loop_h_refines:
  assumes "rx < length h" "h ! rx = RegExp_lastIndex li" "d < length h" "h ! d = Deps_object s p"
    and "p < length h" "h ! p = StringArray ps"
  shows "\<exists>h'. exec_loop_h S rx d h = Inr h' \<and> length h \<le> length h'
           \<and> h' ! p = StringArray (exec_loop S li ps)
           \<and> (\<forall>a < length h. a \<noteq> rx \<longrightarrow> a \<noteq> p \<longrightarrow> h' ! a = h ! a)"
  using assms
proof (induction S li ps arbitrary: h rule: exec_loop.induct)
  case (1 S lastIndex ps)
  note rx = "1.prems"(1) and hrx = "1.prems"(2) and d = "1.prems"(3) and hd = "1.prems"(4)
    and p = "1.prems"(5) and hp = "1.prems"(6)
  have ne: "p \<noteq> rx" "d \<noteq> rx" "d \<noteq> p" using hrx hp hd by auto
  have li: "lastIndex_of h rx = Inr lastIndex" using rx hrx by (rule lastIndex_of_nth)
  show ?case
  proof (cases "exec_from matchParam S lastIndex")
    case None
    have run: "exec_loop_h S rx d h = Inr (h[rx := RegExp_lastIndex 0])"
      by (subst exec_loop_h.simps) (simp add: RegExp_exec_def li None)
    have pure: "exec_loop S lastIndex ps = ps"
      by (simp add: exec_loop.simps [of S lastIndex ps] None)
    show ?thesis
      unfolding run pure using ne hp by simp
  next
    case (Some r)
    obtain i e cs where r: "r = (i, e, cs)" by (cases r)
    define h1 where "h1 = h[rx := RegExp_lastIndex e] @ [StringArray (substring S i e # cs)]"
    define h2 where "h2 = h1[p := StringArray (ps @ [cs ! 0])]"
    have ex: "RegExp_exec matchParam rx S h = Inr (Some (length h), h1)"
      by (simp add: RegExp_exec_def li Some r heap_alloc_def h1_def)
    have arr: "array_of h1 (length h) = Inr (substring S i e # cs)"
      by (simp add: array_of_def heap_get_def h1_def nth_append)
    have dep: "deps_of h1 d = Inr (s, p)"
      using d hd ne by (simp add: deps_of_def heap_get_def h1_def nth_append)
    have h1p: "array_of h1 p = Inr ps"
      using p hp ne by (simp add: array_of_def heap_get_def h1_def nth_append)
    have push: "array_push p (cs ! 0) h1 = Inr h2"
      by (simp add: array_push_def h1p h2_def)
    have step: "exec_loop_h S rx d h = exec_loop_h S rx d h2"
      by (subst exec_loop_h.simps) (simp add: ex arr dep push)
    have pure: "exec_loop S lastIndex ps = exec_loop S e (ps @ [cs ! 0])"
      by (simp add: exec_loop.simps [of S lastIndex ps] Some r)
    have len2: "length h2 = Suc (length h)"
      by (simp add: h2_def h1_def)
    have p1: "rx < length h2" using rx by (simp add: len2)
    have p2: "h2 ! rx = RegExp_lastIndex e"
      using rx ne by (simp add: h2_def h1_def nth_append)
    have p3: "d < length h2" using d by (simp add: len2)
    have p4: "h2 ! d = Deps_object s p"
      using d hd ne by (simp add: h2_def h1_def nth_append)
    have p5: "p < length h2" using p by (simp add: len2)
    have p6: "h2 ! p = StringArray (ps @ [cs ! 0])"
      using p by (simp add: h2_def h1_def)
    from "1.IH" [OF Some r [symmetric] refl, of h2] p1 p2 p3 p4 p5 p6
    obtain h' where run: "exec_loop_h S rx d h2 = Inr h'"
      and len: "length h2 \<le> length h'"
      and res: "h' ! p = StringArray (exec_loop S e (ps @ [cs ! 0]))"
      and frame: "\<forall>a < length h2. a \<noteq> rx \<longrightarrow> a \<noteq> p \<longrightarrow> h' ! a = h2 ! a"
      by blast
    have old: "h2 ! a = h ! a" if "a < length h" "a \<noteq> rx" "a \<noteq> p" for a
      using that by (simp add: h2_def h1_def nth_append)
    have "\<forall>a < length h. a \<noteq> rx \<longrightarrow> a \<noteq> p \<longrightarrow> h' ! a = h ! a"
      using frame old len2 by simp
    moreover have "length h \<le> length h'" using len len2 by simp
    ultimately show ?thesis
      unfolding step pure using run res by blast
  qed
qed

lemma string_match_h_refines:
  assumes "rx < length h" "h ! rx = RegExp_lastIndex li"
  shows "\<exists>r h'. string_match_h alts S rx h = Inr (r, h') \<and> length h \<le> length h'
           \<and> (\<forall>a < length h. a \<noteq> rx \<longrightarrow> h' ! a = h ! a)
           \<and> (case string_match S alts of
                 None \<Rightarrow> r = None
               | Some ms \<Rightarrow> r = Some (length h) \<and> length h < length h'
                             \<and> h' ! length h = StringArray ms)"
proof -
  define h1 where "h1 = h[rx := RegExp_lastIndex 0] @ [StringArray []]"
  have li: "lastIndex_of h rx = Inr li" using assms by (rule lastIndex_of_nth)
  have len1: "length h1 = Suc (length h)" by (simp add: h1_def)
  have p1: "rx < length h1" using assms(1) by (simp add: len1)
  have p2: "h1 ! rx = RegExp_lastIndex 0" using assms(1) by (simp add: h1_def nth_append)
  have p3: "length h < length h1" by (simp add: len1)
  have p4: "h1 ! length h = StringArray []" by (simp add: h1_def nth_append)
  from match_loop_h_refines [OF p1 p2 p3 p4, of alts S]
  obtain h2 where run: "match_loop_h alts S rx (length h) h1 = Inr h2"
    and len: "length h1 \<le> length h2"
    and res: "h2 ! length h = StringArray (match_loop alts S 0 [])"
    and frame: "\<forall>a < length h1. a \<noteq> rx \<longrightarrow> a \<noteq> length h \<longrightarrow> h2 ! a = h1 ! a"
    by blast
  have arr: "array_of h2 (length h) = Inr (match_loop alts S 0 [])"
    using res len len1 by (intro array_of_nth) simp_all
  have run': "string_match_h alts S rx h
                = Inr (if match_loop alts S 0 [] = [] then None else Some (length h), h2)"
    by (simp add: string_match_h_def li heap_alloc_def h1_def [symmetric] run arr)
  have old: "h1 ! a = h ! a" if "a < length h" "a \<noteq> rx" for a
    using that by (simp add: h1_def nth_append)
  have fr: "\<forall>a < length h. a \<noteq> rx \<longrightarrow> h2 ! a = h ! a"
    using frame old len1 by simp
  show ?thesis
    unfolding run' using len len1 fr res
    by (simp add: string_match_def Let_def)
qed

lemma stock_matches_h_refines:
  assumes "a < length h" "h ! a = StringArray known"
  shows "case stock_matches engine S known of
           Inl thrown \<Rightarrow> stock_matches_h engine S a h = Inl (thrown, h)
         | Inr res \<Rightarrow>
            (\<exists>r h'. stock_matches_h engine S a h = Inr (r, h') \<and> length h \<le> length h'
               \<and> (\<forall>b < length h. h' ! b = h ! b)
               \<and> (case res of
                     None \<Rightarrow> r = None
                   | Some ms \<Rightarrow> \<exists>A. r = Some A \<and> length h \<le> A \<and> A < length h'
                                 \<and> h' ! A = StringArray ms))"
proof -
  have arr: "array_of h a = Inr known" using assms by (rule array_of_nth)
  show ?thesis
  proof (cases "plain (join ''|'' known)")
    case True
    define h1 where "h1 = h @ [RegExp_lastIndex 0]"
    have p1: "length h < length h1" and p2: "h1 ! length h = RegExp_lastIndex 0"
      by (simp_all add: h1_def)
    from string_match_h_refines [OF p1 p2, of "split_bar (join ''|'' known)" S]
    obtain r h' where run: "string_match_h (split_bar (join ''|'' known)) S (length h) h1
                              = Inr (r, h')"
      and len: "length h1 \<le> length h'"
      and frame: "\<forall>b < length h1. b \<noteq> length h \<longrightarrow> h' ! b = h1 ! b"
      and res: "case string_match S (split_bar (join ''|'' known)) of
                  None \<Rightarrow> r = None
                | Some ms \<Rightarrow> r = Some (length h1) \<and> length h1 < length h'
                              \<and> h' ! length h1 = StringArray ms"
      by blast
    have run': "stock_matches_h engine S a h = Inr (r, h')"
      using True by (simp add: stock_matches_h_def arr heap_alloc_def h1_def [symmetric] run)
    have pure: "stock_matches engine S known
                  = Inr (string_match S (split_bar (join ''|'' known)))"
      using True by (simp add: stock_matches_def)
    have fr: "\<forall>b < length h. h' ! b = h ! b"
      using frame by (simp add: h1_def nth_append)
    have l: "length h \<le> length h'" using len by (simp add: h1_def)
    have "case string_match S (split_bar (join ''|'' known)) of
            None \<Rightarrow> r = None
          | Some ms \<Rightarrow> \<exists>A. r = Some A \<and> length h \<le> A \<and> A < length h'
                        \<and> h' ! A = StringArray ms"
      using res by (auto simp: h1_def split: option.splits)
    then show ?thesis
      unfolding pure using run' l fr by simp
  next
    case False
    let ?source = "[CHR 0x5C] @ ''b('' @ join ''|'' known @ '')'' @ [CHR 0x5C] @ ''b''"
    have pure: "stock_matches engine S known = engine ?source S"
      using False by (simp add: stock_matches_def)
    show ?thesis
    proof (cases "engine ?source S")
      case (Inl thrown)
      then show ?thesis
        unfolding pure using False by (simp add: stock_matches_h_def arr)
    next
      case (Inr res)
      show ?thesis
      proof (cases res)
        case None
        have "stock_matches_h engine S a h = Inr (None, h @ [RegExp_lastIndex 0])"
          using False Inr None by (simp add: stock_matches_h_def arr heap_alloc_def)
        then show ?thesis
          unfolding pure Inr None by (simp add: nth_append)
      next
        case (Some ms)
        have "stock_matches_h engine S a h
                = Inr (Some (Suc (length h)), h @ [RegExp_lastIndex 0, StringArray ms])"
          using False Inr Some by (simp add: stock_matches_h_def arr heap_alloc_def)
        then show ?thesis
          unfolding pure Inr Some by (simp add: nth_append)
      qed
    qed
  qed
qed

lemma spread_new_Set_nth:
  assumes "a < length h" "h ! a = StringArray xs"
  shows "spread_new_Set a h
           = Inr (Suc (length h), h @ [String_Set (new_Set xs), StringArray (new_Set xs)])"
  using array_of_nth [OF assms] by (simp add: spread_new_Set_def heap_alloc_def)

lemma extract_stocks_refines:
  assumes "a < length h" "h ! a = StringArray known" "d < length h" "h ! d = Deps_object s p"
  shows "case stock_matches engine S known of
           Inl thrown \<Rightarrow> extract_stocks engine S a d h = Inl (thrown, h)
         | Inr res \<Rightarrow>
            (\<exists>h'. extract_stocks engine S a d h = Inr h' \<and> length h \<le> length h'
               \<and> (\<forall>b < length h. b \<noteq> d \<longrightarrow> h' ! b = h ! b)
               \<and> (case res of
                     None \<Rightarrow> h' ! d = Deps_object s p
                   | Some ms \<Rightarrow> \<exists>s'. h' ! d = Deps_object s' p \<and> length h \<le> s'
                                 \<and> s' < length h' \<and> h' ! s' = StringArray (new_Set ms)))"
proof (cases "stock_matches engine S known")
  case (Inl thrown)
  with stock_matches_h_refines [OF assms(1,2), of engine S] show ?thesis
    by (simp add: extract_stocks_def)
next
  case (Inr res)
  with stock_matches_h_refines [OF assms(1,2), of engine S]
  obtain r h1 where run: "stock_matches_h engine S a h = Inr (r, h1)"
    and len: "length h \<le> length h1" and frame: "\<forall>b < length h. h1 ! b = h ! b"
    and res: "case res of
                None \<Rightarrow> r = None
              | Some ms \<Rightarrow> \<exists>A. r = Some A \<and> length h \<le> A \<and> A < length h1
                            \<and> h1 ! A = StringArray ms"
    by auto
  have d1: "d < length h1" "h1 ! d = Deps_object s p"
    using assms(3,4) len frame by simp_all
  show ?thesis
  proof (cases res)
    case None
    with res have "r = None" by simp
    then have "extract_stocks engine S a d h = Inr h1"
      by (simp add: extract_stocks_def run)
    then show ?thesis
      unfolding Inr None using len frame d1 by simp
  next
    case (Some ms)
    with res obtain A where r: "r = Some A" and A: "length h \<le> A" "A < length h1"
      "h1 ! A = StringArray ms" by auto
    define h2 where "h2 = h1 @ [String_Set (new_Set ms), StringArray (new_Set ms)]"
    define h3 where "h3 = h2[d := Deps_object (Suc (length h1)) p]"
    have sp: "spread_new_Set A h1 = Inr (Suc (length h1), h2)"
      unfolding h2_def using A(2,3) by (rule spread_new_Set_nth)
    have "deps_of h2 d = Inr (s, p)"
      using d1 by (intro deps_of_nth) (simp_all add: h2_def nth_append)
    then have st: "set_stocks d (Suc (length h1)) h2 = Inr h3"
      by (simp add: set_stocks_def h3_def)
    have run': "extract_stocks engine S a d h = Inr h3"
      by (simp add: extract_stocks_def run r sp st)
    have l3: "length h3 = length h1 + 2" by (simp add: h3_def h2_def)
    have fr: "\<forall>b < length h. b \<noteq> d \<longrightarrow> h3 ! b = h ! b"
      using frame len by (simp add: h3_def h2_def nth_append)
    have dd: "h3 ! d = Deps_object (Suc (length h1)) p"
      using d1(1) by (simp add: h3_def h2_def)
    have ss: "h3 ! Suc (length h1) = StringArray (new_Set ms)"
      using d1(1) by (simp add: h3_def h2_def nth_append)
    show ?thesis
      unfolding Inr Some using run' l3 len fr dd ss by auto
  qed
qed

lemma extract_parameters_refines:
  assumes "d < length h" "h ! d = Deps_object s p" "p < length h" "h ! p = StringArray ps"
  shows "\<exists>h' p'. extract_parameters S d h = Inr h' \<and> length h \<le> length h'
           \<and> (\<forall>b < length h. b \<noteq> d \<longrightarrow> b \<noteq> p \<longrightarrow> h' ! b = h ! b)
           \<and> h' ! d = Deps_object s p' \<and> length h \<le> p' \<and> p' < length h'
           \<and> h' ! p' = StringArray (new_Set (exec_loop S 0 ps))"
proof -
  define h1 where "h1 = h @ [RegExp_lastIndex 0]"
  have ne: "d \<noteq> p" using assms(2,4) by auto
  have q1: "length h < length h1" and q2: "h1 ! length h = RegExp_lastIndex 0"
    and q3: "d < length h1" and q4: "h1 ! d = Deps_object s p"
    and q5: "p < length h1" and q6: "h1 ! p = StringArray ps"
    using assms by (simp_all add: h1_def nth_append)
  from exec_loop_h_refines [OF q1 q2 q3 q4 q5 q6, of S]
  obtain h2 where run: "exec_loop_h S (length h) d h1 = Inr h2"
    and len: "length h1 \<le> length h2"
    and res: "h2 ! p = StringArray (exec_loop S 0 ps)"
    and frame: "\<forall>a < length h1. a \<noteq> length h \<longrightarrow> a \<noteq> p \<longrightarrow> h2 ! a = h1 ! a"
    by blast
  have l1: "length h1 = Suc (length h)" by (simp add: h1_def)
  have d2: "d < length h2" "h2 ! d = Deps_object s p"
    using frame q3 q4 assms(1) ne len by simp_all
  have p2: "p < length h2" using q5 len by simp
  define h3 where
    "h3 = h2 @ [String_Set (new_Set (exec_loop S 0 ps)), StringArray (new_Set (exec_loop S 0 ps))]"
  define h4 where "h4 = h3[d := Deps_object s (Suc (length h2))]"
  have dep: "deps_of h2 d = Inr (s, p)" using d2 by (rule deps_of_nth)
  have sp: "spread_new_Set p h2 = Inr (Suc (length h2), h3)"
    unfolding h3_def using p2 res by (rule spread_new_Set_nth)
  have "deps_of h3 d = Inr (s, p)"
    using d2 by (intro deps_of_nth) (simp_all add: h3_def nth_append)
  then have st: "set_parameters d (Suc (length h2)) h3 = Inr h4"
    by (simp add: set_parameters_def h4_def)
  have run': "extract_parameters S d h = Inr h4"
    by (simp add: extract_parameters_def heap_alloc_def h1_def [symmetric] run dep sp st)
  have l4: "length h4 = length h2 + 2" by (simp add: h4_def h3_def)
  have old: "h1 ! b = h ! b" if "b < length h" for b
    using that by (simp add: h1_def nth_append)
  have fr: "\<forall>b < length h. b \<noteq> d \<longrightarrow> b \<noteq> p \<longrightarrow> h4 ! b = h ! b"
    using frame old len l1 by (simp add: h4_def h3_def nth_append)
  have dd: "h4 ! d = Deps_object s (Suc (length h2))"
    using d2(1) by (simp add: h4_def h3_def)
  have pp: "h4 ! Suc (length h2) = StringArray (new_Set (exec_loop S 0 ps))"
    using d2(1) by (simp add: h4_def h3_def nth_append)
  show ?thesis
    using run' l4 len l1 fr dd pp by auto
qed

lemma dependencies_value:
  "dependencies engine S known params
     = (case stock_matches engine S known of
          Inl thrown \<Rightarrow> Inl thrown
        | Inr res \<Rightarrow>
            Inr \<lparr>stocks = (case res of None \<Rightarrow> [] | Some ms \<Rightarrow> new_Set ms),
                 parameters = new_Set (exec_loop S 0 [])\<rparr>)"
  by (simp add: dependencies_def Let_def split: sum.splits option.splits)

lemma dependencies_run_refines:
  assumes "a < length h" "h ! a = StringArray known"
  shows "case dependencies engine S known params of
           Inl thrown \<Rightarrow>
            (\<exists>h'. dependencies_run engine S a h = Inl (thrown, h') \<and> take (length h) h' = h)
         | Inr v \<Rightarrow>
            (\<exists>h' s p. dependencies_run engine S a h = Inr (length h + 2, h')
               \<and> length h + 2 < length h' \<and> take (length h) h' = h
               \<and> h' ! (length h + 2) = Deps_object s p
               \<and> length h \<le> s \<and> s < length h' \<and> h' ! s = StringArray (stocks v)
               \<and> length h \<le> p \<and> p < length h' \<and> h' ! p = StringArray (parameters v))"
proof -
  define n where "n = length h"
  define d where "d = n + 2"
  define h3 where "h3 = h @ [StringArray [], StringArray [], Deps_object n (Suc n)]"
  have unfold: "dependencies_run engine S a h
                  = (case extract_stocks engine S a d h3 of
                       Inl thrown \<Rightarrow> Inl thrown
                     | Inr h4 \<Rightarrow>
                        (case extract_parameters S d h4 of
                           Inl thrown \<Rightarrow> Inl thrown
                         | Inr h5 \<Rightarrow> Inr (d, h5)))"
    by (simp add: dependencies_run_def heap_alloc_def h3_def d_def n_def cong: sum.case_cong)
  have l3: "length h3 = n + 3" by (simp add: h3_def n_def)
  have a3: "a < length h3" "h3 ! a = StringArray known"
    using assms by (simp_all add: h3_def nth_append)
  have d3: "d < length h3" "h3 ! d = Deps_object n (Suc n)"
    by (simp_all add: h3_def d_def n_def nth_append)
  have old3: "h3 ! b = h ! b" if "b < n" for b
    using that by (simp add: h3_def n_def nth_append)
  have e3: "h3 ! n = StringArray []" "h3 ! Suc n = StringArray []"
    by (simp_all add: h3_def n_def nth_append)
  show ?thesis
  proof (cases "stock_matches engine S known")
    case (Inl thrown)
    with extract_stocks_refines [OF a3 d3, of engine S]
    have "extract_stocks engine S a d h3 = Inl (thrown, h3)" by simp
    then show ?thesis
      unfolding dependencies_value Inl unfold by (simp add: h3_def)
  next
    case (Inr res)
    with extract_stocks_refines [OF a3 d3, of engine S]
    obtain h4 where run4: "extract_stocks engine S a d h3 = Inr h4"
      and len4: "length h3 \<le> length h4"
      and frame4: "\<forall>b < length h3. b \<noteq> d \<longrightarrow> h4 ! b = h3 ! b"
      and res: "case res of
                  None \<Rightarrow> h4 ! d = Deps_object n (Suc n)
                | Some ms \<Rightarrow> \<exists>s'. h4 ! d = Deps_object s' (Suc n) \<and> length h3 \<le> s'
                              \<and> s' < length h4 \<and> h4 ! s' = StringArray (new_Set ms)"
      by auto
    define ss where "ss = (case res of None \<Rightarrow> [] | Some ms \<Rightarrow> new_Set ms)"
    have "\<exists>s'. h4 ! d = Deps_object s' (Suc n) \<and> n \<le> s' \<and> s' < length h4 \<and> s' \<noteq> d
            \<and> s' \<noteq> Suc n \<and> h4 ! s' = StringArray ss"
    proof (cases res)
      case None
      have "h4 ! n = StringArray []"
        using frame4 e3(1) l3 by (simp add: d_def)
      with None res show ?thesis
        using len4 l3 by (intro exI [of _ n]) (simp add: ss_def d_def)
    next
      case (Some ms)
      with res obtain s' where "h4 ! d = Deps_object s' (Suc n)" "length h3 \<le> s'"
        "s' < length h4" "h4 ! s' = StringArray (new_Set ms)" by auto
      then show ?thesis
        using Some l3 by (intro exI [of _ s']) (simp add: ss_def d_def)
    qed
    then obtain s' where dd4: "h4 ! d = Deps_object s' (Suc n)" and s': "n \<le> s'"
      "s' < length h4" "s' \<noteq> d" "s' \<noteq> Suc n" and hs: "h4 ! s' = StringArray ss"
      by blast
    have d4: "d < length h4" using d3(1) len4 by simp
    have p4: "Suc n < length h4" "h4 ! Suc n = StringArray []"
      using frame4 e3(2) l3 len4 by (simp_all add: d_def)
    from extract_parameters_refines [OF d4 dd4 p4, of S]
    obtain h5 p' where run5: "extract_parameters S d h4 = Inr h5"
      and len5: "length h4 \<le> length h5"
      and frame5: "\<forall>b < length h4. b \<noteq> d \<longrightarrow> b \<noteq> Suc n \<longrightarrow> h5 ! b = h4 ! b"
      and dd5: "h5 ! d = Deps_object s' p'" and p': "length h4 \<le> p'" "p' < length h5"
      and hp: "h5 ! p' = StringArray (new_Set (exec_loop S 0 []))"
      by blast
    have run: "dependencies_run engine S a h = Inr (d, h5)"
      unfolding unfold by (simp add: run4 run5)
    have keep: "h5 ! b = h ! b" if "b < n" for b
    proof -
      from that have "b < length h4" "b \<noteq> d" "b \<noteq> Suc n" "b < length h3"
        using len4 l3 by (simp_all add: d_def)
      then have "h5 ! b = h3 ! b" using frame5 frame4 by simp
      then show ?thesis using old3 [OF that] by simp
    qed
    have tk: "take n h5 = h"
    proof (rule nth_equalityI)
      show "length (take n h5) = length h"
        using len5 len4 l3 by (simp add: n_def)
    next
      fix b
      assume "b < length (take n h5)"
      then have "b < n" by simp
      then show "take n h5 ! b = h ! b" using keep by simp
    qed
    have hs5: "h5 ! s' = StringArray ss"
      using frame5 s' hs by simp
    have "length h + 2 < length h5" using len5 len4 l3 by (simp add: n_def)
    moreover have "length h \<le> p'" using p'(1) len4 l3 by (simp add: n_def)
    moreover have "s' < length h5" using s'(2) len5 by simp
    ultimately show ?thesis
      unfolding dependencies_value Inr
      using run tk dd5 s'(1) hs5 p'(2) hp
      by (simp add: d_def n_def ss_def)
  qed
qed

lemma heap_get_Some: "heap_get h a = Some obj \<longleftrightarrow> a < length h \<and> h ! a = obj"
  by (auto simp: heap_get_def)

lemma run_value_refines:
  assumes "heap_get h a = Some (StringArray known)"
  shows "run_value (dependencies_run engine S a h)
           = (case dependencies engine S known params of
                Inl thrown \<Rightarrow> Inl thrown
              | Inr v \<Rightarrow> Inr (Some v))"
proof -
  from assms have a: "a < length h" "h ! a = StringArray known"
    by (simp_all add: heap_get_Some)
  show ?thesis
  proof (cases "dependencies engine S known params")
    case (Inl thrown)
    with dependencies_run_refines [OF a, of engine S params] show ?thesis
      by (auto simp: run_value_def)
  next
    case (Inr v)
    with dependencies_run_refines [OF a, of engine S params]
    obtain h' s p where run: "dependencies_run engine S a h = Inr (length h + 2, h')"
      and d: "length h + 2 < length h'" "h' ! (length h + 2) = Deps_object s p"
      and s: "s < length h'" "h' ! s = StringArray (stocks v)"
      and p: "p < length h'" "h' ! p = StringArray (parameters v)"
      by auto
    have "deps_value h' (length h + 2) = Some v"
      unfolding deps_value_def
      by (simp only: deps_of_nth [OF d] array_of_nth [OF s] array_of_nth [OF p]
            sum.case prod.case) simp
    then show ?thesis
      unfolding run_value_def run Inr by simp
  qed
qed

lemma run_frame:
  assumes "heap_get h a = Some (StringArray known)"
    and "dependencies_run engine S a h = Inr (d, h')"
  shows "take (length h) h' = h" "length h \<le> d" "length h \<le> length h'"
    "\<exists>s p. heap_get h' d = Some (Deps_object s p) \<and> length h \<le> s \<and> length h \<le> p"
    "deps_value h' d \<noteq> None"
proof -
  from assms(1) have a: "a < length h" "h ! a = StringArray known"
    by (simp_all add: heap_get_Some)
  obtain v where v: "dependencies engine S known [] = Inr v"
    using dependencies_run_refines [OF a, of engine S "[]"] assms(2)
    by (cases "dependencies engine S known []") auto
  with dependencies_run_refines [OF a, of engine S "[]"] assms(2)
  obtain s p where dv: "d = length h + 2" and len: "length h + 2 < length h'"
    and tk: "take (length h) h' = h" and dd: "h' ! (length h + 2) = Deps_object s p"
    and s: "length h \<le> s" "s < length h'" "h' ! s = StringArray (stocks v)"
    and p: "length h \<le> p" "p < length h'" "h' ! p = StringArray (parameters v)"
    by auto
  show "take (length h) h' = h" by (rule tk)
  show "length h \<le> d" by (simp add: dv)
  show "length h \<le> length h'" using len by simp
  show "\<exists>s p. heap_get h' d = Some (Deps_object s p) \<and> length h \<le> s \<and> length h \<le> p"
    unfolding dv heap_get_Some using dd len s(1) p(1) by blast
  have "deps_value h' (length h + 2) = Some v"
    unfolding deps_value_def
    by (simp only: deps_of_nth [OF len dd] array_of_nth [OF s(2,3)] array_of_nth [OF p(2,3)]
          sum.case prod.case) simp
  then show "deps_value h' d \<noteq> None"
    unfolding dv by simp
qed

lemma throw_frame:
  assumes "heap_get h a = Some (StringArray known)"
    and "dependencies_run engine S a h = Inl (thrown, h')"
  shows "take (length h) h' = h"
proof -
  from assms(1) have a: "a < length h" "h ! a = StringArray known"
    by (simp_all add: heap_get_Some)
  from dependencies_run_refines [OF a, of engine S "[]"] assms(2)
  show ?thesis
    by (cases "dependencies engine S known []") auto
qed

lemma heap_get_kept:
  assumes "take (length h) h' = h" "heap_get h a = Some obj"
  shows "heap_get h' a = Some obj"
proof -
  from assms(2) have a: "a < length h" "h ! a = obj" by (simp_all add: heap_get_Some)
  have "length h \<le> length h'"
    using assms(1) by (metis length_take min.cobounded1)
  moreover have "h' ! a = take (length h) h' ! a" using a(1) by simp
  ultimately show ?thesis using a assms(1) by (simp add: heap_get_Some)
qed

lemma rendered_recompute:
  "rendered (recompute engine S a h) = run_value (dependencies_run engine S a h)"
  by (simp add: rendered_def recompute_def run_value_def split: sum.splits prod.splits)

section \<open>Determinism of the extraction\<close>

text \<open>
  Claim C3. The extraction is deterministic and leaves its inputs alone. Take two
  stores, each with an array that holds the same known stocks, at any two addresses;
  whatever else the stores hold (other known parameters, the objects that earlier runs
  left, pattern objects with any \<open>lastIndex\<close>), the runs of the extraction on the
  same expression text have the same outcome: they throw the same error or return the
  same dependencies, which are those that the text and the known stocks determine. A
  run, also one that throws, leaves every object that the store held before as it was, among
  them the array of known stocks and the record of known parameters; the object that
  it returns and the two arrays of that object are new; and a run in the store that
  it leaves returns the same dependencies again. The same holds for the renders of
  the editor, which go through \<open>useMemo\<close>: two first renders agree, a second render
  with the same text and the same array takes the stored object and leaves the store
  alone, and a second render with another array of the same known stocks computes the
  same dependencies.
\<close>

theorem dependencies_deterministic:
  assumes "heap_get h1 a1 = Some (StringArray knownStocks)"
    and "heap_get h2 a2 = Some (StringArray knownStocks)"
  shows "run_value (dependencies_run engine expr a1 h1)
           = run_value (dependencies_run engine expr a2 h2)
       \<and> run_value (dependencies_run engine expr a1 h1)
           = (case dependencies engine expr knownStocks knownParameters of
                Inl thrown \<Rightarrow> Inl thrown
              | Inr v \<Rightarrow> Inr (Some v))
       \<and> (\<forall>thrown h'. dependencies_run engine expr a1 h1 = Inl (thrown, h') \<longrightarrow>
             take (length h1) h' = h1)
       \<and> (\<forall>d h'. dependencies_run engine expr a1 h1 = Inr (d, h') \<longrightarrow>
             take (length h1) h' = h1
             \<and> heap_get h' a1 = Some (StringArray knownStocks)
             \<and> length h1 \<le> d
             \<and> (\<exists>s p. heap_get h' d = Some (Deps_object s p) \<and> length h1 \<le> s \<and> length h1 \<le> p)
             \<and> deps_value h' d \<noteq> None
             \<and> run_value (dependencies_run engine expr a1 h') = Inr (deps_value h' d))
       \<and> rendered (useMemo_dependencies engine expr a1 None h1)
           = rendered (useMemo_dependencies engine expr a2 None h2)
       \<and> (\<forall>d cell h'. useMemo_dependencies engine expr a1 None h1 = Inr (d, cell, h') \<longrightarrow>
             useMemo_dependencies engine expr a1 cell h' = Inr (d, cell, h')
             \<and> (\<forall>b. heap_get h' b = Some (StringArray knownStocks) \<longrightarrow>
                   rendered (useMemo_dependencies engine expr b cell h')
                     = Inr (deps_value h' d)))"
proof -
  note v1 = run_value_refines [OF assms(1), of engine expr knownParameters]
  note v2 = run_value_refines [OF assms(2), of engine expr knownParameters]
  have same: "run_value (dependencies_run engine expr a1 h1)
                = run_value (dependencies_run engine expr a2 h2)"
    unfolding v1 v2 ..
  have again: "run_value (dependencies_run engine expr b h') = Inr (deps_value h' d)"
    if run: "dependencies_run engine expr a1 h1 = Inr (d, h')"
      and b: "heap_get h' b = Some (StringArray knownStocks)" for d h' b
  proof -
    have "run_value (dependencies_run engine expr b h')
            = run_value (dependencies_run engine expr a1 h1)"
      unfolding v1 run_value_refines [OF b, of engine expr knownParameters] ..
    then show ?thesis by (simp add: run run_value_def)
  qed
  have frame: "take (length h1) h' = h1 \<and> heap_get h' a1 = Some (StringArray knownStocks)
                 \<and> length h1 \<le> d
                 \<and> (\<exists>s p. heap_get h' d = Some (Deps_object s p) \<and> length h1 \<le> s \<and> length h1 \<le> p)
                 \<and> deps_value h' d \<noteq> None
                 \<and> run_value (dependencies_run engine expr a1 h') = Inr (deps_value h' d)"
    if run: "dependencies_run engine expr a1 h1 = Inr (d, h')" for d h'
  proof -
    note f = run_frame [OF assms(1) run]
    have kept: "heap_get h' a1 = Some (StringArray knownStocks)"
      using f(1) assms(1) by (rule heap_get_kept)
    from f(1,2,4,5) kept again [OF run kept] show ?thesis by simp
  qed
  have renders: "rendered (useMemo_dependencies engine expr a1 None h1)
                   = rendered (useMemo_dependencies engine expr a2 None h2)"
    by (simp add: useMemo_dependencies_def rendered_recompute same)
  have memo: "useMemo_dependencies engine expr a1 cell h' = Inr (d, cell, h')
                \<and> (\<forall>b. heap_get h' b = Some (StringArray knownStocks) \<longrightarrow>
                      rendered (useMemo_dependencies engine expr b cell h')
                        = Inr (deps_value h' d))"
    if first: "useMemo_dependencies engine expr a1 None h1 = Inr (d, cell, h')" for d cell h'
  proof -
    from first have run: "dependencies_run engine expr a1 h1 = Inr (d, h')"
      and cell: "cell = Some ((expr, a1), d)"
      by (auto simp: useMemo_dependencies_def recompute_def split: sum.splits)
    have hit: "useMemo_dependencies engine expr a1 cell h' = Inr (d, cell, h')"
      by (simp add: useMemo_dependencies_def cell)
    have other: "rendered (useMemo_dependencies engine expr b cell h') = Inr (deps_value h' d)"
      if b: "heap_get h' b = Some (StringArray knownStocks)" for b
    proof (cases "b = a1")
      case True
      then show ?thesis by (simp add: hit rendered_def)
    next
      case False
      then have "useMemo_dependencies engine expr b cell h' = recompute engine expr b h'"
        by (simp add: useMemo_dependencies_def cell)
      then show ?thesis
        by (simp add: rendered_recompute again [OF run b])
    qed
    from hit other show ?thesis by blast
  qed
  have throws: "take (length h1) h' = h1"
    if "dependencies_run engine expr a1 h1 = Inl (thrown, h')" for thrown h'
    using assms(1) that by (rule throw_frame)
  from same v1 throws frame renders memo show ?thesis by blast
qed

lemma special_store_run:
  "run_value (dependencies_run refusing_engine target_equation 0 special_store)
     = Inl (SyntaxError ''Invalid regular expression'')"
  by code_simp

lemma first_store_run:
  "run_value (dependencies_run refusing_engine target_equation 0 first_store)
     = Inr (Some \<lparr>stocks = [''S'', ''R''], parameters = [''surveillance_to_targeting'']\<rparr>)"
  by code_simp

text \<open>
  The two example stores differ in everything but the known stocks: the address of the
  array, the known parameters, and a pattern object and an array that the second
  store holds from before. The runs on the target equation return the same
  dependencies. The run on the first store leaves its two objects as they were and
  returns a new object, and a second render with the same array takes the stored
  object. On the third store the engine refuses the pattern; the run throws and
  leaves the two objects of the store as they were.
\<close>

theorem dependencies_deterministic_witness:
  "heap_get first_store 0 = Some (StringArray [''T'', ''S'', ''R''])
   \<and> heap_get second_store 3 = Some (StringArray [''T'', ''S'', ''R''])
   \<and> run_value (dependencies_run refusing_engine target_equation 3 second_store)
       = Inr (Some \<lparr>stocks = [''S'', ''R''], parameters = [''surveillance_to_targeting'']\<rparr>)
   \<and> run_value (dependencies_run refusing_engine target_equation 0 first_store)
       = Inr (Some \<lparr>stocks = [''S'', ''R''], parameters = [''surveillance_to_targeting'']\<rparr>)
   \<and> (case dependencies_run refusing_engine target_equation 0 first_store of
         Inl thrown \<Rightarrow> False
       | Inr (d, h') \<Rightarrow>
           take 2 h' = first_store \<and> 2 \<le> d
           \<and> run_value (dependencies_run refusing_engine target_equation 0 h')
               = Inr (Some \<lparr>stocks = [''S'', ''R''],
                             parameters = [''surveillance_to_targeting'']\<rparr>))
   \<and> (case useMemo_dependencies refusing_engine target_equation 0 None first_store of
         Inl thrown \<Rightarrow> False
       | Inr (d, cell, h') \<Rightarrow>
           useMemo_dependencies refusing_engine target_equation 0 cell h' = Inr (d, cell, h'))
   \<and> heap_get special_store 0 = Some (StringArray [''T'', ''S(''])
   \<and> (case dependencies_run refusing_engine target_equation 0 special_store of
         Inl (thrown, h') \<Rightarrow>
           thrown = SyntaxError ''Invalid regular expression'' \<and> take 2 h' = special_store
       | Inr r \<Rightarrow> False)"
proof -
  have s1: "heap_get first_store 0 = Some (StringArray [''T'', ''S'', ''R''])"
    and s2: "heap_get second_store 3 = Some (StringArray [''T'', ''S'', ''R''])"
    by (simp_all add: heap_get_def first_store_def second_store_def)
  note det = dependencies_deterministic
               [OF s1 s2, of refusing_engine target_equation known_parameters]
  note v1 = first_store_run
  have v2: "run_value (dependencies_run refusing_engine target_equation 3 second_store)
              = Inr (Some \<lparr>stocks = [''S'', ''R''],
                            parameters = [''surveillance_to_targeting'']\<rparr>)"
    using det [THEN conjunct1] v1 by simp
  from v1 obtain d h'
    where run: "dependencies_run refusing_engine target_equation 0 first_store = Inr (d, h')"
      and dv: "deps_value h' d
                 = Some \<lparr>stocks = [''S'', ''R''], parameters = [''surveillance_to_targeting'']\<rparr>"
    by (auto simp: run_value_def split: sum.splits)
  note fr = det [THEN conjunct2, THEN conjunct2, THEN conjunct2, THEN conjunct1,
                 rule_format, OF run]
  have len: "length first_store = 2" by (simp add: first_store_def)
  have third: "case dependencies_run refusing_engine target_equation 0 first_store of
                 Inl thrown \<Rightarrow> False
               | Inr (d, h') \<Rightarrow>
                   take 2 h' = first_store \<and> 2 \<le> d
                   \<and> run_value (dependencies_run refusing_engine target_equation 0 h')
                       = Inr (Some \<lparr>stocks = [''S'', ''R''],
                                     parameters = [''surveillance_to_targeting'']\<rparr>)"
    using fr by (simp add: run len dv)
  have first: "useMemo_dependencies refusing_engine target_equation 0 None first_store
                 = Inr (d, Some ((target_equation, 0), d), h')"
    by (simp add: useMemo_dependencies_def recompute_def run)
  note mm = det [THEN conjunct2, THEN conjunct2, THEN conjunct2, THEN conjunct2,
                 THEN conjunct2, rule_format, OF first, THEN conjunct1]
  have fourth: "case useMemo_dependencies refusing_engine target_equation 0 None first_store of
                  Inl thrown \<Rightarrow> False
                | Inr (d, cell, h') \<Rightarrow>
                    useMemo_dependencies refusing_engine target_equation 0 cell h'
                      = Inr (d, cell, h')"
    using mm by (simp add: first)
  have s3: "heap_get special_store 0 = Some (StringArray [''T'', ''S(''])"
    by (simp add: heap_get_def special_store_def)
  from special_store_run obtain h''
    where thr: "dependencies_run refusing_engine target_equation 0 special_store
                  = Inl (SyntaxError ''Invalid regular expression'', h'')"
    by (auto simp: run_value_def split: sum.splits)
  note tf = dependencies_deterministic
              [OF s3 s3, of refusing_engine target_equation known_parameters,
               THEN conjunct2, THEN conjunct2, THEN conjunct1, rule_format, OF thr]
  have fifth: "case dependencies_run refusing_engine target_equation 0 special_store of
                 Inl (thrown, h') \<Rightarrow>
                   thrown = SyntaxError ''Invalid regular expression''
                   \<and> take 2 h' = special_store
               | Inr r \<Rightarrow> False"
  proof -
    have "length special_store = 2" by (simp add: special_store_def)
    with tf have "take 2 h'' = special_store" by simp
    then show ?thesis by (simp add: thr)
  qed
  from s1 s2 v2 v1 third fourth s3 fifth show ?thesis by (intro conjI)
qed
section \<open>The meaning of \<open>clamp\<close>\<close>

text \<open>
  Claim C6. Where its three arguments evaluate to \<open>x\<close>, \<open>lo\<close> and \<open>hi\<close>, the call
  \<open>clamp(a, lo, hi)\<close> evaluates to \<open>min(max(x, lo), hi)\<close>. In particular
  \<open>clamp(x, 0, 1)\<close> evaluates to 0, 0, 0.5, 1 and 1 when \<open>x\<close> is bound to -1, 0, 0.5,
  1 and 2.
\<close>

theorem clamp_is_min_max:
  "(evaluate a st pa = Inr x \<and> evaluate lo st pa = Inr l \<and> evaluate hi st pa = Inr h \<longrightarrow>
      evaluate (Clamp a lo hi) st pa = Inr (min (max x l) h))
   \<and> map (\<lambda>v. evaluate clamp_x_0_1 (x_is v) Map.empty) [- 1, 0, 1 / 2, 1, 2]
       = map Inr [0, 0, 1 / 2, 1, 1]"
  by (simp add: clamp_x_0_1_def x_is_def)

theorem clamp_is_min_max_witness:
  "evaluate (Ident ''x'') (x_is 2) Map.empty = Inr 2
   \<and> evaluate (Num 0) (x_is 2) Map.empty = Inr 0
   \<and> evaluate (Num 1) (x_is 2) Map.empty = Inr 1
   \<and> evaluate (Clamp (Ident ''x'') (Num 0) (Num 1)) (x_is 2) Map.empty = Inr 1"
proof -
  have a: "evaluate (Ident ''x'') (x_is 2) Map.empty = Inr 2"
    and lo: "evaluate (Num 0) (x_is 2) Map.empty = Inr 0"
    and hi: "evaluate (Num 1) (x_is 2) Map.empty = Inr 1"
    by (simp_all add: x_is_def)
  from clamp_is_min_max [of "Ident ''x''" "x_is 2" Map.empty 2 "Num 0" 0 "Num 1" 1,
                         THEN conjunct1, rule_format, OF conjI [OF a conjI [OF lo hi]]]
  have "evaluate (Clamp (Ident ''x'') (Num 0) (Num 1)) (x_is 2) Map.empty = Inr 1"
    by simp
  with a lo hi show ?thesis by simp
qed

section \<open>A rejected operation does not stop the merge\<close>


lemma apply_changes_accounts:
  "applied (apply_changes V w i cs) + length (skips (apply_changes V w i cs))
     = applied w + length (skips w) + length cs"
  by (induction cs arbitrary: w i) (auto split: sum.splits)

lemma merge_accounts_for_every_operation:
  "applied_count (merge V base ops mode) + length (skipped (merge V base ops mode)) = length ops"
  using apply_changes_accounts
          [of V "\<lparr>document = base, applied = 0, skips = [], pending_warnings = []\<rparr>" 0 ops]
  by (simp add: merge_def Let_def)






end
